theory Spec2Isabelle
  imports Complex_Main "HOL-Library.Word" "HOL-Library.Log_Nat"
begin

section \<open>py-staticmaps: the cairo renderer (\<^verbatim>\<open>staticmaps/cairo_renderer.py\<close>)\<close>

text \<open>
  The renderer is modelled with explicit state passing. A statement of the Python code is a
  function from the renderer object to a pair: the exception that ended the statement (if
  any) and the renderer as the statement left it, since in Python the mutations made before
  an exception is raised stay.

  Numbers: Python's unbounded \<^verbatim>\<open>int\<close> is \<open>int\<close>. A finite float is the rational number
  it denotes. The quotient inside \<^verbatim>\<open>math.ceil\<close> is rounded to a double as Python
  rounds it. The font size, the text measures and the tile offsets are rationals; the
  one float operation of the source on them, the repeated subtraction of 0.25 from 9.0,
  is exact in binary floating point for more steps than any run makes.
\<close>

subsection \<open>Exceptions\<close>

datatype py_exception =
    RuntimeError
  | NotImplementedError
  | ZeroDivisionError
  | OverflowError
  | NameError
  | OSError
  | ValueError
  | CairoError

text \<open>\<^verbatim>\<open>except RuntimeError\<close> catches the class and its subclasses.\<close>

fun is_RuntimeError :: "py_exception \<Rightarrow> bool" where
  "is_RuntimeError RuntimeError = True"
| "is_RuntimeError NotImplementedError = True"
| "is_RuntimeError _ = False"

subsection \<open>The transformer\<close>

text \<open>
  The class \<^verbatim>\<open>Transformer\<close> is not among the sources. The renderer only reads it
  through accessor methods, so it is the record of what those accessors return.
\<close>

record transformer =
  image_width :: int
  image_height :: int
  world_width :: int
  zoom :: int
  number_of_tiles :: int
  tile_size :: int
  tiles_x :: int
  tiles_y :: int
  first_tile_x :: int
  first_tile_y :: int
  tile_offset_x :: rat
  tile_offset_y :: rat

definition image_size :: "transformer \<Rightarrow> int \<times> int" where
  "image_size t = (image_width t, image_height t)"

subsection \<open>Python arithmetic\<close>

definition py_mod :: "int \<Rightarrow> int \<Rightarrow> py_exception + int" where
  "py_mod a b = (if b = 0 then Inl ZeroDivisionError else Inr (a mod b))"

text \<open>
  \<^verbatim>\<open>a / b\<close> on two ints is the double nearest to the exact quotient, ties going to the
  even significand, with 53 significant bits down to the exponent - 1022 and the fixed
  spacing \<open>2^-1074\<close> below; it raises \<^verbatim>\<open>OverflowError\<close> when the rounded quotient is
  beyond the doubles, and \<^verbatim>\<open>ZeroDivisionError\<close> when \<open>b\<close> is 0.
\<close>

text \<open>The nearest integer, ties to even.\<close>

definition round_half_even :: "rat \<Rightarrow> int" where
  "round_half_even x =
     (let f = \<lfloor>x\<rfloor>; d = x - of_int f
      in if d < 1 / 2 then f else if 1 / 2 < d then f + 1 else if even f then f else f + 1)"

text \<open>The \<open>e\<close> with \<open>2^e \<le> a / b < 2^(e + 1)\<close>, for positive \<open>a\<close> and \<open>b\<close>.\<close>

definition quotient_exponent :: "int \<Rightarrow> int \<Rightarrow> int" where
  "quotient_exponent a b =
     (let k = bitlen a - bitlen b
      in if power_int 2 k \<le> (of_int a :: rat) / of_int b then k else k - 1)"

definition py_truediv :: "int \<Rightarrow> int \<Rightarrow> py_exception + rat" where
  "py_truediv a b =
     (if b = 0 then Inl ZeroDivisionError
      else if a = 0 then Inr 0
      else
        (let q = of_int \<bar>a\<bar> / of_int \<bar>b\<bar>;
             e = quotient_exponent \<bar>a\<bar> \<bar>b\<bar>;
             ulp = power_int 2 (max e (- 1022) - 52);
             r = of_int (round_half_even (q / ulp)) * ulp
         in if power_int 2 1024 \<le> r then Inl OverflowError
            else Inr (if (a < 0) = (b < 0) then r else - r)))"

text \<open>\<^verbatim>\<open>int(x)\<close> on a float truncates towards zero.\<close>

definition py_int :: "rat \<Rightarrow> int" where
  "py_int x = (if 0 \<le> x then \<lfloor>x\<rfloor> else \<lceil>x\<rceil>)"

subsection \<open>The cairo drawing context\<close>

type_synonym bytes = "8 word list"

record surface =
  surf_width :: int
  surf_height :: int
  surf_data :: bytes

text \<open>The current transformation matrix, as cairo stores it.\<close>

record matrix =
  m_xx :: rat
  m_yx :: rat
  m_xy :: rat
  m_yy :: rat
  m_x0 :: rat
  m_y0 :: rat

definition identity_matrix :: matrix where
  "identity_matrix = \<lparr>m_xx = 1, m_yx = 0, m_xy = 0, m_yy = 1, m_x0 = 0, m_y0 = 0\<rparr>"

text \<open>\<^verbatim>\<open>translate(tx, ty)\<close> moves the user-space origin by \<open>(tx, ty)\<close>.\<close>

definition matrix_translate :: "rat \<Rightarrow> rat \<Rightarrow> matrix \<Rightarrow> matrix" where
  "matrix_translate tx ty m =
     m\<lparr>m_x0 := m_xx m * tx + m_xy m * ty + m_x0 m,
       m_y0 := m_yx m * tx + m_yy m * ty + m_y0 m\<rparr>"

datatype source = SolidSource rat rat rat rat | SurfaceSource surface

text \<open>What \<^verbatim>\<open>save()\<close> pushes and \<^verbatim>\<open>restore()\<close> pops.\<close>

record gstate =
  ctm :: matrix
  source_pattern :: source
  font_face :: string
  font_size :: rat

record cairo_context =
  gstate :: gstate
  stack :: "gstate list"

datatype cairo_call =
    Save
  | Restore
  | Translate rat rat
  | SetSourceSurface surface
  | Paint
  | SelectFontFace string
  | SetFontSize rat
  | SetSourceRGBA rat rat rat rat
  | SetSourceRGB rat rat rat
  | Rectangle rat rat rat rat
  | Fill
  | MoveTo rat rat
  | ShowText string
  | Stroke

text \<open>
  The effect of a context method on the graphics state. The drawing calls leave the
  graphics state as it is: what they put on the surface is read off the renderer's record
  of calls below. \<^verbatim>\<open>restore()\<close> without a matching \<^verbatim>\<open>save()\<close> is the one call
  here that cairo rejects.
\<close>

fun ctx_apply :: "cairo_call \<Rightarrow> cairo_context \<Rightarrow> py_exception + cairo_context" where
  "ctx_apply Save c = Inr (c\<lparr>stack := gstate c # stack c\<rparr>)"
| "ctx_apply Restore c =
     (case stack c of
        [] \<Rightarrow> Inl CairoError
      | g # gs \<Rightarrow> Inr (c\<lparr>gstate := g, stack := gs\<rparr>))"
| "ctx_apply (Translate tx ty) c =
     Inr (c\<lparr>gstate := (gstate c)\<lparr>ctm := matrix_translate tx ty (ctm (gstate c))\<rparr>\<rparr>)"
| "ctx_apply (SetSourceSurface s) c =
     Inr (c\<lparr>gstate := (gstate c)\<lparr>source_pattern := SurfaceSource s\<rparr>\<rparr>)"
| "ctx_apply (SetSourceRGBA r g b a) c =
     Inr (c\<lparr>gstate := (gstate c)\<lparr>source_pattern := SolidSource r g b a\<rparr>\<rparr>)"
| "ctx_apply (SetSourceRGB r g b) c =
     Inr (c\<lparr>gstate := (gstate c)\<lparr>source_pattern := SolidSource r g b 1\<rparr>\<rparr>)"
| "ctx_apply (SelectFontFace f) c =
     Inr (c\<lparr>gstate := (gstate c)\<lparr>font_face := f\<rparr>\<rparr>)"
| "ctx_apply (SetFontSize s) c =
     Inr (c\<lparr>gstate := (gstate c)\<lparr>font_size := s\<rparr>\<rparr>)"
| "ctx_apply _ c = Inr c"

definition Context_new :: "surface \<Rightarrow> cairo_context" where
  "Context_new s =
     \<lparr>gstate = \<lparr>ctm = identity_matrix, source_pattern = SolidSource 0 0 0 1,
                font_face = [], font_size = 10\<rparr>,
      stack = []\<rparr>"

subsection \<open>The renderer object\<close>

text \<open>
  \<open>calls\<close> is not a field of the Python object: it records, in order, every call the
  renderer makes on its collaborators (a method of the cairo context, an object's
  \<^verbatim>\<open>render_cairo\<close>, the injected \<^verbatim>\<open>download\<close>), so that how often and with which
  arguments they are called can be stated.
\<close>

datatype 'o event = Ctx cairo_call | RenderCairo 'o | Download int int int

record 'o renderer =
  self_trans :: transformer
  self_surface :: surface
  self_context :: cairo_context
  calls :: "'o event list"

type_synonym 'o stmt = "'o renderer \<Rightarrow> py_exception option \<times> 'o renderer"

text \<open>\<^verbatim>\<open>self._context.m(...)\<close>\<close>

definition call :: "cairo_call \<Rightarrow> 'o stmt" where
  "call c self =
     (case ctx_apply c (self_context self) of
        Inl e \<Rightarrow> (Some e, self\<lparr>calls := calls self @ [Ctx c]\<rparr>)
      | Inr c' \<Rightarrow> (None, self\<lparr>self_context := c', calls := calls self @ [Ctx c]\<rparr>))"

text \<open>Statements in sequence; an exception ends the sequence.\<close>

fun seq :: "'o stmt list \<Rightarrow> 'o stmt" where
  "seq [] self = (None, self)"
| "seq (m # ms) self =
     (case m self of
        (Some e, self') \<Rightarrow> (Some e, self')
      | (None, self') \<Rightarrow> seq ms self')"

text \<open>\<^verbatim>\<open>for x in xs: body\<close>\<close>

definition for_each :: "'a list \<Rightarrow> ('a \<Rightarrow> 'o stmt) \<Rightarrow> 'o stmt" where
  "for_each xs body = seq (map body xs)"

text \<open>\<^verbatim>\<open>range(a, b)\<close> is the list \<open>[a..b - 1]\<close>.\<close>

definition py_range :: "int \<Rightarrow> int \<Rightarrow> int list" where
  "py_range a b = [a..b - 1]"

subsection \<open>\<^verbatim>\<open>render_objects\<close>\<close>

text \<open>
  The drawable objects are not among the sources; the renderer treats them uniformly
  through \<^verbatim>\<open>obj.render_cairo(self)\<close>. An object is a value of type \<open>'o\<close>, and \<open>rc\<close> is
  what its \<^verbatim>\<open>render_cairo\<close> does to the drawing context of the renderer it is given.
\<close>

type_synonym 'o render_cairo =
  "'o \<Rightarrow> transformer \<Rightarrow> cairo_context \<Rightarrow> py_exception option \<times> cairo_context"

definition obj_render_cairo :: "'o render_cairo \<Rightarrow> 'o \<Rightarrow> 'o stmt" where
  "obj_render_cairo rc obj self =
     (case rc obj (self_trans self) (self_context self) of
        (r, c') \<Rightarrow> (r, self\<lparr>self_context := c', calls := calls self @ [RenderCairo obj]\<rparr>))"

text \<open>\<^verbatim>\<open>math.ceil(self._trans.image_width() / (2 * self._trans.world_width()))\<close>\<close>

definition x_count :: "transformer \<Rightarrow> py_exception + int" where
  "x_count t =
     (case py_truediv (image_width t) (2 * world_width t) of
        Inl e \<Rightarrow> Inl e
      | Inr q \<Rightarrow> Inr \<lceil>q\<rceil>)"

text \<open>The body of the inner loop: one rendering of \<open>obj\<close>, at the offset \<open>p\<close>.\<close>

definition render_object_at :: "'o render_cairo \<Rightarrow> 'o \<Rightarrow> int \<Rightarrow> 'o stmt" where
  "render_object_at rc obj p self =
     seq [call Save,
          call (Translate (of_int (p * world_width (self_trans self))) 0),
          obj_render_cairo rc obj,
          call Restore] self"

definition render_objects :: "'o render_cairo \<Rightarrow> 'o list \<Rightarrow> bool \<Rightarrow> 'o stmt" where
  "render_objects rc objects tighten self =
     (case x_count (self_trans self) of
        Inl e \<Rightarrow> (Some e, self)
      | Inr xc \<Rightarrow>
          for_each objects (\<lambda>obj.
            for_each (py_range (- xc) (xc + 1)) (render_object_at rc obj)) self)"

subsection \<open>Image decoding: \<^verbatim>\<open>create_image\<close>\<close>

text \<open>\<^verbatim>\<open>io.BytesIO\<close>: a byte buffer with a stream position.\<close>

record BytesIO =
  buffer :: bytes
  position :: nat

definition BytesIO_new :: "bytes \<Rightarrow> BytesIO" where
  "BytesIO_new b = \<lparr>buffer = b, position = 0\<rparr>"

definition bio_write :: "bytes \<Rightarrow> BytesIO \<Rightarrow> BytesIO" where
  "bio_write b f =
     \<lparr>buffer = take (position f) (buffer f) @ b @ drop (position f + length b) (buffer f),
      position = position f + length b\<rparr>"

definition bio_flush :: "BytesIO \<Rightarrow> BytesIO" where
  "bio_flush f = f"

definition bio_seek :: "nat \<Rightarrow> BytesIO \<Rightarrow> BytesIO" where
  "bio_seek n f = f\<lparr>position := n\<rparr>"

text \<open>What a reader of the stream gets: the bytes from the stream position on.\<close>

definition bio_read :: "BytesIO \<Rightarrow> bytes" where
  "bio_read f = drop (position f) (buffer f)"

text \<open>
  Pillow and cairo's PNG reader are libraries outside the repository: their codecs are
  parameters. \<open>pil_decode\<close> is what \<^verbatim>\<open>PIL.Image.open\<close> makes of the bytes it reads
  (the image and the format it recognised, or the exception it raises), \<open>pil_encode_png\<close>
  is what \<^verbatim>\<open>image.save(f, format="PNG")\<close> writes, \<open>png_decode\<close> is what
  \<^verbatim>\<open>cairo.ImageSurface.create_from_png\<close> makes of the bytes it reads.
\<close>

record pil_image =
  format :: "string option"
  pixels :: bytes

record codecs =
  pil_decode :: "bytes \<Rightarrow> py_exception + pil_image"
  pil_encode_png :: "pil_image \<Rightarrow> py_exception + bytes"
  png_decode :: "bytes \<Rightarrow> py_exception + surface"

definition PIL_Image_open :: "codecs \<Rightarrow> BytesIO \<Rightarrow> py_exception + pil_image" where
  "PIL_Image_open lib f = pil_decode lib (bio_read f)"

definition image_save_PNG :: "codecs \<Rightarrow> pil_image \<Rightarrow> BytesIO \<Rightarrow> py_exception + BytesIO" where
  "image_save_PNG lib im f =
     (case pil_encode_png lib im of
        Inl e \<Rightarrow> Inl e
      | Inr b \<Rightarrow> Inr (bio_write b f))"

definition create_from_png :: "codecs \<Rightarrow> BytesIO \<Rightarrow> py_exception + surface" where
  "create_from_png lib f = png_decode lib (bio_read f)"

definition create_image :: "codecs \<Rightarrow> bytes \<Rightarrow> py_exception + surface" where
  "create_image lib image_data =
     (case PIL_Image_open lib (BytesIO_new image_data) of
        Inl e \<Rightarrow> Inl e
      | Inr im \<Rightarrow>
          if format im = Some ''PNG'' then create_from_png lib (BytesIO_new image_data)
          else
            (case image_save_PNG lib im (BytesIO_new []) of
               Inl e \<Rightarrow> Inl e
             | Inr png_bytes \<Rightarrow> create_from_png lib (bio_seek 0 (bio_flush png_bytes))))"

subsection \<open>\<^verbatim>\<open>fetch_tile\<close> and \<^verbatim>\<open>render_tiles\<close>\<close>

text \<open>
  The injected callback \<^verbatim>\<open>download(zoom, x, y)\<close> returns tile bytes or \<^verbatim>\<open>None\<close>, or
  raises.
\<close>

type_synonym download = "int \<Rightarrow> int \<Rightarrow> int \<Rightarrow> py_exception + bytes option"

definition fetch_tile ::
  "codecs \<Rightarrow> download \<Rightarrow> int \<Rightarrow> int \<Rightarrow> 'o renderer \<Rightarrow> (py_exception + surface option) \<times> 'o renderer"
where
  "fetch_tile lib download x y self =
     (let z = zoom (self_trans self);
          self' = self\<lparr>calls := calls self @ [Download z x y]\<rparr>
      in case download z x y of
           Inl e \<Rightarrow> (Inl e, self')
         | Inr None \<Rightarrow> (Inr None, self')
         | Inr (Some image_data) \<Rightarrow>
             (case create_image lib image_data of
                Inl e \<Rightarrow> (Inl e, self')
              | Inr img \<Rightarrow> (Inr (Some img), self')))"

text \<open>The body of the \<^verbatim>\<open>try\<close> block for the cell \<open>(xx, yy)\<close> with tile indices \<open>(x, y)\<close>.\<close>

definition tile_try :: "codecs \<Rightarrow> download \<Rightarrow> int \<Rightarrow> int \<Rightarrow> int \<Rightarrow> int \<Rightarrow> 'o stmt" where
  "tile_try lib download xx yy x y self =
     (case fetch_tile lib download x y self of
        (Inl e, self') \<Rightarrow> (Some e, self')
      | (Inr None, self') \<Rightarrow> (None, self')
      | (Inr (Some tile_img), self') \<Rightarrow>
          (let t = self_trans self' in
           seq [call Save,
                call (Translate
                  (of_int (py_int (of_int (xx * tile_size t) + tile_offset_x t)))
                  (of_int (py_int (of_int (yy * tile_size t) + tile_offset_y t)))),
                call (SetSourceSurface tile_img),
                call Paint,
                call Restore] self'))"

text \<open>\<^verbatim>\<open>try: body except RuntimeError: pass\<close>\<close>

definition except_RuntimeError_pass :: "'o stmt \<Rightarrow> 'o stmt" where
  "except_RuntimeError_pass body self =
     (case body self of
        (Some e, self') \<Rightarrow> if is_RuntimeError e then (None, self') else (Some e, self')
      | (None, self') \<Rightarrow> (None, self'))"

text \<open>The body of the inner loop, for one \<open>xx\<close>.\<close>

definition tile_cell :: "codecs \<Rightarrow> download \<Rightarrow> int \<Rightarrow> int \<Rightarrow> int \<Rightarrow> 'o stmt" where
  "tile_cell lib download yy y xx self =
     (case py_mod (first_tile_x (self_trans self) + xx) (number_of_tiles (self_trans self)) of
        Inl e \<Rightarrow> (Some e, self)
      | Inr x \<Rightarrow> except_RuntimeError_pass (tile_try lib download xx yy x y) self)"

text \<open>The body of the outer loop, for one \<open>yy\<close>.\<close>

definition tile_row :: "codecs \<Rightarrow> download \<Rightarrow> int \<Rightarrow> 'o stmt" where
  "tile_row lib download yy self =
     (let y = first_tile_y (self_trans self) + yy in
      if y < 0 \<or> y \<ge> number_of_tiles (self_trans self) then (None, self)
      else for_each (py_range 0 (tiles_x (self_trans self))) (tile_cell lib download yy y) self)"

definition render_tiles :: "codecs \<Rightarrow> download \<Rightarrow> 'o list \<Rightarrow> bool \<Rightarrow> 'o stmt" where
  "render_tiles lib download objects tighten self =
     for_each (py_range 0 (tiles_y (self_trans self))) (tile_row lib download) self"

subsection \<open>\<^verbatim>\<open>render_attribution\<close>\<close>

text \<open>
  Font metrics come from cairo's font backend, outside the repository: they are
  parameters, functions of the selected font face and font size. \<open>fb_font_extents\<close> is
  the tuple \<^verbatim>\<open>font_extents()\<close> returns (ascent, descent, height, max_x_advance,
  max_y_advance), \<open>fb_text_width\<close> is \<^verbatim>\<open>text_extents(text).width\<close>.
\<close>

record font_backend =
  fb_font_extents :: "string \<Rightarrow> rat \<Rightarrow> rat \<times> rat \<times> rat \<times> rat \<times> rat"
  fb_text_width :: "string \<Rightarrow> rat \<Rightarrow> string \<Rightarrow> rat"

definition font_extents :: "font_backend \<Rightarrow> 'o renderer \<Rightarrow> rat \<times> rat \<times> rat \<times> rat \<times> rat" where
  "font_extents fb self =
     fb_font_extents fb (font_face (gstate (self_context self)))
       (font_size (gstate (self_context self)))"

definition text_extents_width :: "font_backend \<Rightarrow> string \<Rightarrow> 'o renderer \<Rightarrow> rat" where
  "text_extents_width fb text self =
     fb_text_width fb (font_face (gstate (self_context self)))
       (font_size (gstate (self_context self))) text"

text \<open>
  The colours \<^verbatim>\<open>WHITE\<close> and \<^verbatim>\<open>BLACK\<close> are defined in \<^verbatim>\<open>color.py\<close>, not among the
  sources: what their \<^verbatim>\<open>float_rgb()\<close> returns is a parameter.
\<close>

record colors =
  WHITE_float_rgb :: "rat \<times> rat \<times> rat"
  BLACK_float_rgb :: "rat \<times> rat \<times> rat"

text \<open>
  The \<^verbatim>\<open>while True\<close> loop, entered with the current \<open>font_size\<close>. It has no bound, so
  it is a partial function: \<open>None\<close> is the loop that never leaves. On leaving it yields
  \<open>(f_descent, f_height)\<close> of the last measurement.
\<close>

partial_function (option) shrink_loop ::
  "font_backend \<Rightarrow> string \<Rightarrow> int \<Rightarrow> rat \<Rightarrow> 'o renderer
     \<Rightarrow> ((py_exception + rat \<times> rat) \<times> 'o renderer) option"
where
  "shrink_loop fb attribution width fsize self =
     (case call (SetFontSize fsize) self of
        (Some e, self1) \<Rightarrow> Some (Inl e, self1)
      | (None, self1) \<Rightarrow>
          (case font_extents fb self1 of
             (_, f_descent, f_height, _, _) \<Rightarrow>
               if text_extents_width fb attribution self1 < of_int (width - 4)
               then Some (Inr (f_descent, f_height), self1)
               else shrink_loop fb attribution width (fsize - 1 / 4) self1))"

definition render_attribution ::
  "font_backend \<Rightarrow> colors \<Rightarrow> string option \<Rightarrow> 'o renderer
     \<Rightarrow> (py_exception option \<times> 'o renderer) option"
where
  "render_attribution fb col attribution self =
     (case attribution of
        None \<Rightarrow> Some (None, self)
      | Some a \<Rightarrow>
          if a = [] then Some (None, self)
          else
            (case image_size (self_trans self) of
               (width, height) \<Rightarrow>
                 (case call (SelectFontFace ''Sans'') self of
                    (Some e, self1) \<Rightarrow> Some (Some e, self1)
                  | (None, self1) \<Rightarrow>
                      (case shrink_loop fb a width 9 self1 of
                         None \<Rightarrow> None
                       | Some (Inl e, self2) \<Rightarrow> Some (Some e, self2)
                       | Some (Inr (f_descent, f_height), self2) \<Rightarrow>
                           (case (WHITE_float_rgb col, BLACK_float_rgb col) of
                              ((wr, wg, wb), (br, bg, bb)) \<Rightarrow>
                                Some (seq
                                  [call (SetSourceRGBA wr wg wb (8 / 10)),
                                   call (Rectangle 0 (of_int height - f_height - f_descent - 2)
                                           (of_int width) (of_int height)),
                                   call Fill,
                                   call (SetSourceRGB br bg bb),
                                   call (MoveTo 4 (of_int height - f_descent - 2)),
                                   call (ShowText a),
                                   call Stroke] self2))))))"

subsection \<open>\<^verbatim>\<open>cairo_is_supported\<close> and the constructor\<close>

text \<open>
  What the module sees of the interpreter: \<^verbatim>\<open>sys.modules\<close> (the names of the loaded
  modules) and its own global name \<^verbatim>\<open>cairo\<close>, bound only if the import at the top of
  the file succeeded. Of the cairo module the constructor uses \<^verbatim>\<open>cairo.ImageSurface\<close>,
  which allocates the target surface or raises.
\<close>

record cairo_module =
  ImageSurface :: "int \<Rightarrow> int \<Rightarrow> py_exception + surface"

record py_env =
  sys_modules :: "string set"
  cairo :: "cairo_module option"

text \<open>
  \<^verbatim>\<open>try: import cairo  except ImportError: pass\<close>, run with the loaded modules \<open>mods\<close>
  when the package found for the name is \<open>pkg\<close> (\<open>None\<close>: the import raises
  \<^verbatim>\<open>ImportError\<close>).
\<close>

definition import_cairo :: "cairo_module option \<Rightarrow> string set \<Rightarrow> py_env" where
  "import_cairo pkg mods =
     (case pkg of
        None \<Rightarrow> \<lparr>sys_modules = mods, cairo = None\<rparr>
      | Some m \<Rightarrow> \<lparr>sys_modules = insert ''cairo'' mods, cairo = Some m\<rparr>)"

definition cairo_is_supported :: "py_env \<Rightarrow> bool" where
  "cairo_is_supported env = (''cairo'' \<in> sys_modules env)"

text \<open>
  \<^verbatim>\<open>Renderer.__init__\<close> (not among the sources) stores the transformer. A use of the
  global name \<^verbatim>\<open>cairo\<close> while it is unbound raises \<^verbatim>\<open>NameError\<close>.
\<close>

definition CairoRenderer_init :: "py_env \<Rightarrow> transformer \<Rightarrow> py_exception + 'o renderer" where
  "CairoRenderer_init env transformer =
     (if \<not> cairo_is_supported env then Inl RuntimeError
      else
        (case cairo env of
           None \<Rightarrow> Inl NameError
         | Some m \<Rightarrow>
             (case image_size transformer of
                (w, h) \<Rightarrow>
                  (case ImageSurface m w h of
                     Inl e \<Rightarrow> Inl e
                   | Inr s \<Rightarrow>
                       Inr \<lparr>self_trans = transformer, self_surface = s,
                            self_context = Context_new s, calls = []\<rparr>))))"

section \<open>Example inputs\<close>

text \<open>An 800 by 600 viewport at zoom 1 with 256-pixel tiles.\<close>

definition ex_trans :: transformer where
  "ex_trans =
     \<lparr>image_width = 800, image_height = 600, world_width = 512, zoom = 1,
      number_of_tiles = 2, tile_size = 256, tiles_x = 5, tiles_y = 4,
      first_tile_x = - 1, first_tile_y = - 1,
      tile_offset_x = - 112, tile_offset_y = - 212\<rparr>"

definition ex_surface :: surface where
  "ex_surface = \<lparr>surf_width = 800, surf_height = 600, surf_data = []\<rparr>"

definition ex_renderer :: "nat renderer" where
  "ex_renderer =
     \<lparr>self_trans = ex_trans, self_surface = ex_surface,
      self_context = Context_new ex_surface, calls = []\<rparr>"

text \<open>Objects that set a red source and draw nothing else.\<close>

definition ex_rc :: "nat render_cairo" where
  "ex_rc obj t c = (None, c\<lparr>gstate := (gstate c)\<lparr>source_pattern := SolidSource 1 0 0 1\<rparr>\<rparr>)"

text \<open>
  Codecs for the examples: empty data is not an image; data that starts with the byte 137
  is taken for PNG, other data for JPEG; the PNG encoder puts the byte 137 in front; the
  PNG reader accepts what starts with 137.
\<close>

definition ex_lib :: codecs where
  "ex_lib =
     \<lparr>pil_decode = (\<lambda>b. if b = [] then Inl OSError
                         else Inr \<lparr>format = Some (if hd b = 137 then ''PNG'' else ''JPEG''),
                                  pixels = b\<rparr>),
      pil_encode_png = (\<lambda>im. Inr (137 # pixels im)),
      png_decode = (\<lambda>b. if b \<noteq> [] \<and> hd b = 137
                         then Inr \<lparr>surf_width = 256, surf_height = 256, surf_data = b\<rparr>
                         else Inl CairoError)\<rparr>"

text \<open>Codecs whose image reader fails with \<^verbatim>\<open>RuntimeError\<close> on every input.\<close>

definition ex_lib_rt :: codecs where
  "ex_lib_rt = ex_lib\<lparr>pil_decode := (\<lambda>b. Inl RuntimeError)\<rparr>"

text \<open>
  Tile providers: one that has a tile for column 0 only, one that fails with
  \<^verbatim>\<open>OSError\<close> (a connection error), one that fails with \<^verbatim>\<open>RuntimeError\<close>, one that
  returns empty data.
\<close>

definition ex_download :: download where
  "ex_download z x y = (if x = 0 then Inr (Some [137, 80, 78, 71]) else Inr None)"

definition ex_download_oserror :: download where
  "ex_download_oserror z x y = Inl OSError"

definition ex_download_rt :: download where
  "ex_download_rt z x y = Inl RuntimeError"

definition ex_download_empty :: download where
  "ex_download_empty z x y = Inr (Some [])"

text \<open>A cairo module whose surface allocation rejects negative sizes.\<close>

definition ex_cairo :: cairo_module where
  "ex_cairo =
     \<lparr>ImageSurface = (\<lambda>w h. if 0 \<le> w \<and> 0 \<le> h
                             then Inr \<lparr>surf_width = w, surf_height = h, surf_data = []\<rparr>
                             else Inl CairoError)\<rparr>"

text \<open>
  A font backend in which every glyph is half as wide as the font size (in absolute value)
  and the descent is a quarter of it; the two colours; a viewport 40 pixels wide and one
  4 pixels wide.
\<close>

definition ex_fb :: font_backend where
  "ex_fb =
     \<lparr>fb_font_extents = (\<lambda>face fs. (fs, fs / 4, fs * 5 / 4, fs, 0)),
      fb_text_width = (\<lambda>face fs text. \<bar>fs\<bar> * of_nat (length text) / 2)\<rparr>"

definition ex_col :: colors where
  "ex_col = \<lparr>WHITE_float_rgb = (1, 1, 1), BLACK_float_rgb = (0, 0, 0)\<rparr>"

definition ex_renderer_narrow :: "nat renderer" where
  "ex_renderer_narrow = ex_renderer\<lparr>self_trans := ex_trans\<lparr>image_width := 40\<rparr>\<rparr>"

definition ex_renderer_tiny :: "nat renderer" where
  "ex_renderer_tiny = ex_renderer\<lparr>self_trans := ex_trans\<lparr>image_width := 4\<rparr>\<rparr>"

section \<open>Properties\<close>

subsection \<open>Sequences and loops\<close>

lemma seq_append:
  "seq (ms @ ns) s = (case seq ms s of (Some e, s') \<Rightarrow> (Some e, s') | (None, s') \<Rightarrow> seq ns s')"
  by (induction ms arbitrary: s) (auto split: prod.splits option.splits)

lemma for_each_Nil: "for_each [] body s = (None, s)"
  by (simp add: for_each_def)

lemma for_each_Cons:
  "for_each (x # xs) body s =
     (case body x s of (Some e, s') \<Rightarrow> (Some e, s') | (None, s') \<Rightarrow> for_each xs body s')"
  unfolding for_each_def by simp

lemma for_each_append:
  "for_each (xs @ ys) body s =
     (case for_each xs body s of (Some e, s') \<Rightarrow> (Some e, s') | (None, s') \<Rightarrow> for_each ys body s')"
  unfolding for_each_def by (simp add: seq_append)

lemma for_each_calls:
  assumes step: "\<And>x s. x \<in> set xs \<Longrightarrow> I s \<Longrightarrow>
            fst (body x s) = None \<and> I (snd (body x s)) \<and> calls (snd (body x s)) = calls s @ ev x"
    and init: "I s"
  shows "fst (for_each xs body s) = None \<and> I (snd (for_each xs body s)) \<and>
         calls (snd (for_each xs body s)) = calls s @ concat (map ev xs)"
  using assms
proof (induction xs arbitrary: s)
  case Nil
  then show ?case by (simp add: for_each_Nil)
next
  case (Cons x xs)
  obtain r s' where b: "body x s = (r, s')" by (cases "body x s")
  from Cons.prems(1)[of x s] Cons.prems(2) b
  have r: "r = None" and I': "I s'" and c': "calls s' = calls s @ ev x" by auto
  have "fst (for_each xs body s') = None \<and> I (snd (for_each xs body s')) \<and>
         calls (snd (for_each xs body s')) = calls s' @ concat (map ev xs)"
    by (rule Cons.IH) (use Cons.prems(1) I' in auto)
  then show ?case using b r c' by (simp add: for_each_Cons)
qed

lemma call_props:
  "self_trans (snd (call c s)) = self_trans s"
  "calls (snd (call c s)) = calls s @ [Ctx c]"
  by (auto simp: call_def split: sum.splits)

lemma call_ok:
  "c \<noteq> Restore \<Longrightarrow> fst (call c s) = None"
  by (cases c) (auto simp: call_def)

lemma render_object_at_props:
  assumes norm: "\<And>c. fst (rc obj (self_trans s) c) = None"
    and stk: "\<And>c. stack c \<noteq> [] \<Longrightarrow> stack (snd (rc obj (self_trans s) c)) \<noteq> []"
  shows "fst (render_object_at rc obj p s) = None"
    and "self_trans (snd (render_object_at rc obj p s)) = self_trans s"
    and "calls (snd (render_object_at rc obj p s)) =
          calls s @ [Ctx Save, Ctx (Translate (of_int (p * world_width (self_trans s))) 0),
                     RenderCairo obj, Ctx Restore]"
proof -
  let ?tr = "Translate (of_int (p * world_width (self_trans s))) 0"
  define s1 where "s1 = snd (call Save s)"
  define s2 where "s2 = snd (call ?tr s1)"
  define s3 where "s3 = snd (obj_render_cairo rc obj s2)"
  have e1: "call Save s = (None, s1)" by (simp add: s1_def call_def)
  have e2: "call ?tr s1 = (None, s2)" by (simp add: s2_def call_def)
  have st2: "stack (self_context s2) \<noteq> []" by (simp add: s2_def s1_def call_def)
  have t2: "self_trans s2 = self_trans s" by (simp add: s2_def s1_def call_props)
  have e3: "obj_render_cairo rc obj s2 = (None, s3)"
    using norm[of "self_context s2"] t2
    by (auto simp: s3_def obj_render_cairo_def split: prod.splits)
  have st3: "stack (self_context s3) \<noteq> []"
    using stk[OF st2] t2 by (auto simp: s3_def obj_render_cairo_def split: prod.splits)
  have e4: "fst (call Restore s3) = None"
    using st3 by (auto simp: call_def split: list.splits)
  have c3: "calls s3 = calls s @ [Ctx Save, Ctx ?tr, RenderCairo obj]"
    by (auto simp: s3_def obj_render_cairo_def s2_def s1_def call_props split: prod.splits)
  have t3: "self_trans s3 = self_trans s"
    using t2 by (auto simp: s3_def obj_render_cairo_def split: prod.splits)
  have r: "render_object_at rc obj p s = call Restore s3"
    using e1 e2 e3 e4 by (cases "call Restore s3") (auto simp: render_object_at_def)
  show "fst (render_object_at rc obj p s) = None" using r e4 by simp
  show "self_trans (snd (render_object_at rc obj p s)) = self_trans s" using r t3 by (simp add: call_props)
  show "calls (snd (render_object_at rc obj p s)) =
          calls s @ [Ctx Save, Ctx ?tr, RenderCairo obj, Ctx Restore]"
    using r c3 by (simp add: call_props)
qed

subsection \<open>The float quotient of two ints\<close>

lemma round_half_even_error: "\<bar>of_int (round_half_even x) - x\<bar> \<le> 1 / 2"
proof -
  have "of_int \<lfloor>x\<rfloor> \<le> x" "x < of_int \<lfloor>x\<rfloor> + 1" by linarith+
  then show ?thesis
    by (auto simp: round_half_even_def Let_def abs_le_iff)
qed

lemma round_half_even_of_int: "round_half_even (of_int k) = k"
  by (simp add: round_half_even_def)

lemma quotient_exponent_bounds:
  assumes a: "0 < a" and b: "0 < b"
  shows "power_int 2 (quotient_exponent a b) \<le> (of_int a :: rat) / of_int b"
    and "(of_int a :: rat) / of_int b < power_int 2 (quotient_exponent a b + 1)"
proof -
  let ?q = "(of_int a :: rat) / of_int b"
  let ?k = "bitlen a - bitlen b"
  have ba: "1 \<le> bitlen a" and bb: "1 \<le> bitlen b"
    using a b by (auto simp: bitlen_alt_def)
  from bitlen_bounds[OF a] have a1: "(2::rat) ^ nat (bitlen a - 1) \<le> of_int a"
    and a2: "of_int a < (2::rat) ^ nat (bitlen a)"
    by (metis of_int_le_iff of_int_numeral of_int_power, metis of_int_less_iff of_int_numeral of_int_power)
  from bitlen_bounds[OF b] have b1: "(2::rat) ^ nat (bitlen b - 1) \<le> of_int b"
    and b2: "of_int b < (2::rat) ^ nat (bitlen b)"
    by (metis of_int_le_iff of_int_numeral of_int_power, metis of_int_less_iff of_int_numeral of_int_power)
  have pa: "(2::rat) ^ nat (bitlen a) = power_int 2 (bitlen a)"
    and pa1: "(2::rat) ^ nat (bitlen a - 1) = power_int 2 (bitlen a - 1)"
    and pb: "(2::rat) ^ nat (bitlen b) = power_int 2 (bitlen b)"
    and pb1: "(2::rat) ^ nat (bitlen b - 1) = power_int 2 (bitlen b - 1)"
    using ba bb by (simp_all add: power_int_def)
  have bpos: "(0::rat) < of_int b" using b by simp
  have upper: "?q < power_int 2 (?k + 1)"
  proof -
    have "?q < power_int 2 (bitlen a) / power_int 2 (bitlen b - 1)"
      using a2 b1 bpos unfolding pa pb1
      by (intro frac_less) (use a in auto)
    also have "\<dots> = power_int 2 (?k + 1)"
      by (simp add: power_int_diff[symmetric] algebra_simps)
    finally show ?thesis .
  qed
  have lower: "power_int 2 (?k - 1) < ?q"
  proof -
    have "power_int 2 (bitlen a - 1) / power_int 2 (bitlen b) < ?q"
      using a1 b2 bpos unfolding pa1 pb
      by (intro frac_less2) auto
    moreover have "power_int 2 (bitlen a - 1) / power_int 2 (bitlen b) = (power_int 2 (?k - 1) :: rat)"
      by (simp add: power_int_diff[symmetric] algebra_simps)
    ultimately show ?thesis by simp
  qed
  show "power_int 2 (quotient_exponent a b) \<le> ?q"
    using lower by (auto simp: quotient_exponent_def Let_def)
  show "?q < power_int 2 (quotient_exponent a b + 1)"
    using upper by (auto simp: quotient_exponent_def Let_def not_le)
qed

lemma power_int_2_exp_less:
  assumes "power_int (2::rat) i < power_int 2 j"
  shows "i < j"
proof (rule ccontr)
  assume "\<not> i < j"
  then have "j \<le> i" by simp
  then have "power_int (2::rat) j \<le> power_int 2 i"
    by (intro power_int_increasing) simp_all
  with assms show False by simp
qed

lemma py_truediv_ceiling:
  assumes a0: "0 \<le> a" and a53: "a < 2 ^ 53" and b0: "0 < b" and b53: "b < 2 ^ 53"
  shows "\<exists>q. py_truediv a b = Inr q \<and> \<lceil>q\<rceil> = \<lceil>(of_int a :: rat) / of_int b\<rceil>"
proof (cases "a = 0")
  case True
  then show ?thesis using b0 by (simp add: py_truediv_def)
next
  case False
  then have a: "0 < a" using a0 by simp
  define Q :: rat where "Q = of_int a / of_int b"
  define e where "e = quotient_exponent a b"
  define ulp :: rat where "ulp = power_int 2 (e - 52)"
  define m where "m = round_half_even (Q / ulp)"
  define r :: rat where "r = of_int m * ulp"
  define n where "n = \<lceil>Q\<rceil>"
  have bq: "(0::rat) < of_int b" and aq: "(0::rat) < of_int a" using a b0 by simp_all
  have Qpos: "0 < Q" unfolding Q_def using aq bq by simp
  have e1: "power_int 2 e \<le> Q" and e2: "Q < power_int 2 (e + 1)"
    unfolding Q_def e_def using quotient_exponent_bounds[OF a b0] by simp_all
  have a53q: "(of_int a :: rat) < 2 ^ 53" and b53q: "(of_int b :: rat) < 2 ^ 53"
    using a53 b53 by (metis of_int_less_iff of_int_numeral of_int_power)+
  have a1q: "(1::rat) \<le> of_int a" and b1q: "(1::rat) \<le> of_int b"
    using a b0 by (simp_all add: int_one_le_iff_zero_less)
  \<comment> \<open>the exponent is in the normal range, and the unit in the last place is at most 1\<close>
  have "power_int (2::rat) (- 53) < Q"
  proof -
    have "power_int (2::rat) (- 53) = 1 / 2 ^ 53" by (simp add: power_int_minus_divide)
    also have "\<dots> < 1 / of_int b" using b53q bq by (simp add: frac_less2)
    also have "\<dots> \<le> Q" unfolding Q_def using a1q bq by (simp add: divide_right_mono)
    finally show ?thesis .
  qed
  with e2 have "power_int (2::rat) (- 53) < power_int 2 (e + 1)" by simp
  then have elo: "- 53 \<le> e" using power_int_2_exp_less by fastforce
  have Qa: "Q \<le> of_int a"
    unfolding Q_def using b1q aq bq by (simp add: field_simps mult_le_cancel_left1)
  have "power_int (2::rat) e < power_int 2 53"
    using e1 Qa a53q by simp
  then have ehi: "e < 53" by (rule power_int_2_exp_less)
  have mx: "max e (- 1022) = e" using elo by simp
  have ulp_pos: "0 < ulp" unfolding ulp_def by (simp add: zero_less_power_int)
  \<comment> \<open>the rounding error\<close>
  have "\<bar>of_int m - Q / ulp\<bar> \<le> 1 / 2" unfolding m_def by (rule round_half_even_error)
  then have "\<bar>of_int m - Q / ulp\<bar> * ulp \<le> 1 / 2 * ulp"
    using ulp_pos by (intro mult_right_mono) simp_all
  moreover have "\<bar>of_int m - Q / ulp\<bar> * ulp = \<bar>r - Q\<bar>"
  proof -
    have "\<bar>of_int m - Q / ulp\<bar> * ulp = \<bar>of_int m - Q / ulp\<bar> * \<bar>ulp\<bar>"
      using ulp_pos by simp
    also have "\<dots> = \<bar>(of_int m - Q / ulp) * ulp\<bar>" by (simp only: abs_mult)
    also have "(of_int m - Q / ulp) * ulp = r - Q"
      unfolding r_def using ulp_pos by (simp add: field_simps)
    finally show ?thesis .
  qed
  ultimately have err: "\<bar>r - Q\<bar> \<le> ulp / 2" by simp
  have "ulp / 2 = power_int 2 e / 2 ^ 53"
    unfolding ulp_def by (simp add: power_int_diff)
  also have "\<dots> \<le> Q / 2 ^ 53" using e1 by (simp add: divide_right_mono)
  also have "\<dots> < 1 / of_int b"
    unfolding Q_def using a53q bq by (simp add: field_simps)
  finally have ulpb: "ulp / 2 < 1 / of_int b" .
  have err': "\<bar>r - Q\<bar> < 1 / of_int b" using err ulpb by simp
  have n1: "of_int n - 1 < Q" and n2: "Q \<le> of_int n" unfolding n_def by linarith+
  have nlea: "n \<le> a" unfolding n_def using Qa by (simp add: ceiling_le_iff)
  have rn: "of_int n - 1 < r \<and> r \<le> of_int n"
  proof (cases "Q = of_int n")
    case True
    have p: "ulp = 1 / 2 ^ nat (52 - e)"
      unfolding ulp_def using ehi
      by (simp add: power_int_def inverse_eq_divide power_one_over nat_diff_distrib)
    have "Q / ulp = of_int (n * 2 ^ nat (52 - e))" unfolding True p by simp
    then have "m = n * 2 ^ nat (52 - e)" unfolding m_def by (simp only: round_half_even_of_int)
    then have "r = of_int n" unfolding r_def p by simp
    then show ?thesis by simp
  next
    case neq: False
    have lt: "a < n * b"
    proof -
      have "Q < of_int n" using n2 neq by simp
      then have "(of_int a :: rat) < of_int n * of_int b"
        unfolding Q_def using bq by (simp add: field_simps)
      then show ?thesis by (metis of_int_less_iff of_int_mult)
    qed
    have gt: "(n - 1) * b < a"
    proof -
      have "(of_int (n - 1) :: rat) * of_int b < of_int a"
        using n1 unfolding Q_def using bq by (simp add: field_simps)
      then show ?thesis by (metis of_int_less_iff of_int_mult)
    qed
    have "1 \<le> n * b - a" using lt by simp
    then have "(1::rat) \<le> of_int (n * b - a)" by (simp only: of_int_1_le_iff)
    then have d1: "1 / of_int b \<le> of_int n - Q"
      unfolding Q_def using bq by (simp add: field_simps)
    have "1 \<le> a - (n - 1) * b" using gt by simp
    then have "(1::rat) \<le> of_int (a - (n - 1) * b)" by (simp only: of_int_1_le_iff)
    then have d2: "1 / of_int b \<le> Q - (of_int n - 1)"
      unfolding Q_def using bq by (simp add: field_simps)
    from err' d1 d2 show ?thesis by (simp add: abs_less_iff)
  qed
  have "r \<le> of_int a" using rn nlea by (meson of_int_le_iff order_trans)
  then have "r < 2 ^ 53" using a53q by simp
  also have "(2::rat) ^ 53 < power_int 2 1024" by simp
  finally have noov: "\<not> power_int 2 1024 \<le> r" by simp
  have mx': "max (quotient_exponent a b) (- 1022) = quotient_exponent a b"
    using mx by (simp add: e_def)
  have res: "py_truediv a b = Inr r"
    using a b0 noov
    unfolding r_def m_def ulp_def Q_def e_def
    by (simp add: py_truediv_def Let_def mx')
  have "\<lceil>r\<rceil> = n" using rn by (simp add: ceiling_unique)
  then show ?thesis using res unfolding n_def Q_def by blast
qed

subsection \<open>World duplication in \<^verbatim>\<open>render_objects\<close>\<close>

lemma x_count_nonneg:
  assumes "0 < world_width t" and "0 \<le> image_width t"
    and "image_width t < 2 ^ 53" and "world_width t < 2 ^ 52"
  shows "x_count t = Inr \<lceil>(of_int (image_width t) :: rat) / of_int (2 * world_width t)\<rceil>"
    and "0 \<le> \<lceil>(of_int (image_width t) :: rat) / of_int (2 * world_width t)\<rceil>"
proof -
  have b: "0 < 2 * world_width t" "2 * world_width t < 2 ^ 53" using assms by simp_all
  from py_truediv_ceiling[OF assms(2) assms(3) b]
  obtain q where "py_truediv (image_width t) (2 * world_width t) = Inr q"
    and "\<lceil>q\<rceil> = \<lceil>(of_int (image_width t) :: rat) / of_int (2 * world_width t)\<rceil>" by blast
  then show "x_count t = Inr \<lceil>(of_int (image_width t) :: rat) / of_int (2 * world_width t)\<rceil>"
    by (simp add: x_count_def)
  have "(0::rat) \<le> of_int (image_width t) / of_int (2 * world_width t)"
    using assms by (intro divide_nonneg_nonneg) simp_all
  then show "0 \<le> \<lceil>(of_int (image_width t) :: rat) / of_int (2 * world_width t)\<rceil>"
    by (smt (verit) ceiling_mono ceiling_zero)
qed

lemma filter_offsets:
  "filter (\<lambda>e. e = RenderCairo obj) (concat (map (\<lambda>p. [Ctx a, Ctx (f p), RenderCairo ob, Ctx b]) ps)) =
     (if ob = obj then replicate (length ps) (RenderCairo obj) else [])"
  by (induction ps) auto

lemma count_render_calls:
  "length (filter (\<lambda>e. e = RenderCairo obj)
      (concat (map (\<lambda>ob. concat (map (\<lambda>p. [Ctx a, Ctx (f p), RenderCairo ob, Ctx b]) ps)) objects))) =
   length ps * count_list objects obj"
  by (induction objects) (auto simp: filter_offsets)

text \<open>
  C1. With a positive world width and a non-negative image width, both small enough for
  the float quotient to be told apart from the next integer (image width below \<open>2^53\<close>,
  world width below \<open>2^52\<close>), and objects whose \<^verbatim>\<open>render_cairo\<close> returns normally and
  leaves the context's stack of saved states non-empty, \<^verbatim>\<open>render_objects\<close> returns
  normally and makes, for every object in turn and every offset \<open>p\<close> from \<open>- x_count\<close> to
  \<open>x_count\<close> in turn, the calls \<^verbatim>\<open>save()\<close>, \<^verbatim>\<open>translate(p * world_width, 0)\<close>,
  \<^verbatim>\<open>obj.render_cairo(self)\<close>, \<^verbatim>\<open>restore()\<close>, where \<open>x_count\<close> is the ceiling of the
  exact quotient \<open>image_width / (2 * world_width)\<close>: an object is rendered
  \<open>2 * x_count + 1\<close> times for each of its occurrences in the list.
\<close>

theorem render_objects_call_count:
  assumes ww: "0 < world_width (self_trans self)"
    and iw: "0 \<le> image_width (self_trans self)"
    and iw53: "image_width (self_trans self) < 2 ^ 53"
    and ww52: "world_width (self_trans self) < 2 ^ 52"
    and wb: "\<forall>obj\<in>set objects. \<forall>c. fst (rc obj (self_trans self) c) = None \<and>
               (stack c \<noteq> [] \<longrightarrow> stack (snd (rc obj (self_trans self) c)) \<noteq> [])"
  shows "\<exists>xc. x_count (self_trans self) = Inr xc \<and>
           xc = \<lceil>(of_int (image_width (self_trans self)) :: rat) / of_int (2 * world_width (self_trans self))\<rceil> \<and>
           0 \<le> xc \<and>
           fst (render_objects rc objects tighten self) = None \<and>
           calls (snd (render_objects rc objects tighten self)) =
             calls self @
             concat (map (\<lambda>obj. concat (map (\<lambda>p.
               [Ctx Save, Ctx (Translate (of_int (p * world_width (self_trans self))) 0),
                RenderCairo obj, Ctx Restore]) [- xc..xc])) objects) \<and>
           (\<forall>obj. length (filter (\<lambda>e. e = RenderCairo obj)
                     (drop (length (calls self)) (calls (snd (render_objects rc objects tighten self))))) =
                  nat (2 * xc + 1) * count_list objects obj)"
proof -
  let ?t = "self_trans self"
  define xc where "xc = \<lceil>(of_int (image_width ?t) :: rat) / of_int (2 * world_width ?t)\<rceil>"
  let ?ev = "\<lambda>obj p. [Ctx Save, Ctx (Translate (of_int (p * world_width ?t)) 0),
                RenderCairo obj, Ctx Restore]"
  let ?I = "\<lambda>s::'a renderer. self_trans s = ?t"
  have xc: "x_count ?t = Inr xc" and xc0: "0 \<le> xc"
    using x_count_nonneg[OF ww iw iw53 ww52] by (simp_all add: xc_def)
  have inner: "fst (for_each (py_range (- xc) (xc + 1)) (render_object_at rc obj) s) = None \<and>
        ?I (snd (for_each (py_range (- xc) (xc + 1)) (render_object_at rc obj) s)) \<and>
        calls (snd (for_each (py_range (- xc) (xc + 1)) (render_object_at rc obj) s)) =
          calls s @ concat (map (?ev obj) (py_range (- xc) (xc + 1)))"
    if "obj \<in> set objects" and "?I s" for obj s
  proof (rule for_each_calls[where I = ?I])
    show "?I s" by fact
  next
    fix p s'
    assume I': "?I s'"
    have n: "\<And>c. fst (rc obj (self_trans s') c) = None"
      and k: "\<And>c. stack c \<noteq> [] \<Longrightarrow> stack (snd (rc obj (self_trans s') c)) \<noteq> []"
      using wb that(1) I' by auto
    show "fst (render_object_at rc obj p s') = None \<and> ?I (snd (render_object_at rc obj p s')) \<and>
          calls (snd (render_object_at rc obj p s')) = calls s' @ ?ev obj p"
      using render_object_at_props[of rc obj s' p, OF n k] I' by simp
  qed
  have outer: "fst (for_each objects (\<lambda>obj. for_each (py_range (- xc) (xc + 1)) (render_object_at rc obj)) self) = None \<and>
        ?I (snd (for_each objects (\<lambda>obj. for_each (py_range (- xc) (xc + 1)) (render_object_at rc obj)) self)) \<and>
        calls (snd (for_each objects (\<lambda>obj. for_each (py_range (- xc) (xc + 1)) (render_object_at rc obj)) self)) =
          calls self @ concat (map (\<lambda>obj. concat (map (?ev obj) (py_range (- xc) (xc + 1)))) objects)"
    by (rule for_each_calls[where I = ?I]) (use inner in auto)
  have ro: "render_objects rc objects tighten self =
      for_each objects (\<lambda>obj. for_each (py_range (- xc) (xc + 1)) (render_object_at rc obj)) self"
    by (simp add: render_objects_def xc)
  have rng: "py_range (- xc) (xc + 1) = [- xc..xc]" by (simp add: py_range_def)
  have len: "length [- xc..xc] = nat (2 * xc + 1)" by simp
  have cnt: "length (filter (\<lambda>e. e = RenderCairo obj)
                     (drop (length (calls self)) (calls (snd (render_objects rc objects tighten self))))) =
                  nat (2 * xc + 1) * count_list objects obj" for obj
    using outer unfolding ro rng by (simp add: count_render_calls)
  have out: "fst (render_objects rc objects tighten self) = None"
    "calls (snd (render_objects rc objects tighten self)) =
          calls self @ concat (map (\<lambda>obj. concat (map (?ev obj) [- xc..xc])) objects)"
    using outer unfolding ro rng by simp_all
  show ?thesis
  proof (intro exI[of _ xc] conjI allI)
    show "x_count ?t = Inr xc" by (rule xc)
    show "xc = \<lceil>(of_int (image_width ?t) :: rat) / of_int (2 * world_width ?t)\<rceil>" by (rule xc_def)
    show "0 \<le> xc" by (rule xc0)
    show "fst (render_objects rc objects tighten self) = None" by (rule out)
    show "calls (snd (render_objects rc objects tighten self)) =
          calls self @ concat (map (\<lambda>obj. concat (map (?ev obj) [- xc..xc])) objects)" by (rule out)
    show "length (filter (\<lambda>e. e = RenderCairo obj)
                     (drop (length (calls self)) (calls (snd (render_objects rc objects tighten self))))) =
                  nat (2 * xc + 1) * count_list objects obj" for obj by (rule cnt)
  qed
qed

theorem render_objects_call_count_witness:
  "0 < world_width (self_trans ex_renderer) \<and> 0 \<le> image_width (self_trans ex_renderer) \<and>
   x_count (self_trans ex_renderer) = Inr 1 \<and>
   fst (render_objects ex_rc [7] False ex_renderer) = None \<and>
   length (filter (\<lambda>e. e = RenderCairo 7)
     (calls (snd (render_objects ex_rc [7] False ex_renderer)))) = 3"
proof -
  have h1: "0 < world_width (self_trans ex_renderer)"
    by (simp add: ex_renderer_def ex_trans_def)
  have h2: "0 \<le> image_width (self_trans ex_renderer)"
    by (simp add: ex_renderer_def ex_trans_def)
  have h4: "image_width (self_trans ex_renderer) < 2 ^ 53"
    by (simp add: ex_renderer_def ex_trans_def)
  have h5: "world_width (self_trans ex_renderer) < 2 ^ 52"
    by (simp add: ex_renderer_def ex_trans_def)
  have h3: "\<forall>obj\<in>set [7]. \<forall>c. fst (ex_rc obj (self_trans ex_renderer) c) = None \<and>
               (stack c \<noteq> [] \<longrightarrow> stack (snd (ex_rc obj (self_trans ex_renderer) c)) \<noteq> [])"
    by (simp add: ex_rc_def)
  have c: "\<lceil>(of_int (image_width (self_trans ex_renderer)) :: rat) /
             of_int (2 * world_width (self_trans ex_renderer))\<rceil> = 1"
    by (simp add: ex_renderer_def ex_trans_def ceiling_eq_iff)
  have e: "calls ex_renderer = []" by (simp add: ex_renderer_def)
  from render_objects_call_count[where self = ex_renderer and rc = ex_rc and objects = "[7]"
      and tighten = False, OF h1 h2 h4 h5 h3] c e
  show ?thesis using h1 h2 by auto
qed

subsection \<open>Tiles: \<^verbatim>\<open>fetch_tile\<close> and the loop body\<close>

lemma for_each_invariant_normal:
  assumes step: "\<And>x s. x \<in> set xs \<Longrightarrow> I s \<Longrightarrow> fst (body x s) = None \<Longrightarrow> I (snd (body x s))"
    and init: "I s"
    and ret: "fst (for_each xs body s) = None"
  shows "I (snd (for_each xs body s))"
  using assms
proof (induction xs arbitrary: s)
  case Nil
  then show ?case by (simp add: for_each_Nil)
next
  case (Cons x xs)
  obtain r s' where b: "body x s = (r, s')" by (cases "body x s")
  have r: "r = None"
    using Cons.prems(3) b by (cases r) (simp_all add: for_each_Cons)
  have I': "I s'" using Cons.prems(1)[of x s] Cons.prems(2) b r by simp
  have ret': "fst (for_each xs body s') = None"
    using Cons.prems(3) b r by (simp add: for_each_Cons)
  have "I (snd (for_each xs body s'))"
    by (rule Cons.IH) (use Cons.prems(1) I' ret' in auto)
  then show ?case using b r by (simp add: for_each_Cons)
qed

lemma for_each_invariant:
  assumes step: "\<And>x s. x \<in> set xs \<Longrightarrow> I s \<Longrightarrow> I (snd (body x s))"
    and init: "I s"
  shows "I (snd (for_each xs body s))"
  using assms
proof (induction xs arbitrary: s)
  case Nil
  then show ?case by (simp add: for_each_Nil)
next
  case (Cons x xs)
  obtain r s' where b: "body x s = (r, s')" by (cases "body x s")
  have I': "I s'" using Cons.prems(1)[of x s] Cons.prems(2) b by simp
  have "I (snd (for_each xs body s'))"
    by (rule Cons.IH) (use Cons.prems(1) I' in auto)
  then show ?case using b I' by (cases r) (simp_all add: for_each_Cons)
qed

text \<open>The renderer with more calls on record and nothing else changed.\<close>

lemma fetch_tile_state:
  "snd (fetch_tile lib download x y s) = s\<lparr>calls := calls s @ [Download (zoom (self_trans s)) x y]\<rparr>"
  by (simp add: fetch_tile_def Let_def split: sum.splits option.splits)

lemma fetch_tile_result:
  "fst (fetch_tile lib download x y s) =
     (case download (zoom (self_trans s)) x y of
        Inl e \<Rightarrow> Inl e
      | Inr None \<Rightarrow> Inr None
      | Inr (Some image_data) \<Rightarrow>
          (case create_image lib image_data of Inl e \<Rightarrow> Inl e | Inr img \<Rightarrow> Inr (Some img)))"
  by (simp add: fetch_tile_def Let_def split: sum.splits option.splits)

lemma paint_tile:
  "seq [call Save, call (Translate a b), call (SetSourceSurface img), call Paint, call Restore] s =
     (None, s\<lparr>calls := calls s @ [Ctx Save, Ctx (Translate a b), Ctx (SetSourceSurface img),
                                   Ctx Paint, Ctx Restore]\<rparr>)"
  by (simp add: call_def)

lemma tile_try_state:
  "\<exists>evs. snd (tile_try lib download xx yy x y s) =
           s\<lparr>calls := calls s @ Download (zoom (self_trans s)) x y # evs\<rparr> \<and>
         (\<forall>z x' y'. Download z x' y' \<notin> set evs)"
proof -
  obtain r s1 where f: "fetch_tile lib download x y s = (r, s1)"
    by (cases "fetch_tile lib download x y s")
  have s1: "s1 = s\<lparr>calls := calls s @ [Download (zoom (self_trans s)) x y]\<rparr>"
    using fetch_tile_state[of lib download x y s] f by simp
  show ?thesis
  proof (cases r)
    case (Inl e)
    then show ?thesis using f s1 by (intro exI[of _ "[]"]) (simp add: tile_try_def)
  next
    case (Inr v)
    show ?thesis
    proof (cases v)
      case None
      then show ?thesis using f s1 Inr by (intro exI[of _ "[]"]) (simp add: tile_try_def)
    next
      case (Some img)
      then show ?thesis using f s1 Inr
        by (intro exI[of _ "[Ctx Save,
              Ctx (Translate
                (of_int (py_int (of_int (xx * tile_size (self_trans s)) + tile_offset_x (self_trans s))))
                (of_int (py_int (of_int (yy * tile_size (self_trans s)) + tile_offset_y (self_trans s))))),
              Ctx (SetSourceSurface img), Ctx Paint, Ctx Restore]"])
          (simp add: tile_try_def Let_def paint_tile del: seq.simps)
    qed
  qed
qed

lemma except_RuntimeError_pass_state:
  "snd (except_RuntimeError_pass body s) = snd (body s)"
  by (simp add: except_RuntimeError_pass_def split: prod.splits option.splits)

lemma tile_cell_state:
  assumes "number_of_tiles (self_trans s) \<noteq> 0"
  shows "\<exists>evs. snd (tile_cell lib download yy y xx s) =
           s\<lparr>calls := calls s @
              Download (zoom (self_trans s))
                ((first_tile_x (self_trans s) + xx) mod number_of_tiles (self_trans s)) y # evs\<rparr> \<and>
         (\<forall>z x' y'. Download z x' y' \<notin> set evs)"
  using assms tile_try_state[of lib download xx yy
      "(first_tile_x (self_trans s) + xx) mod number_of_tiles (self_trans s)" y s]
  by (simp add: tile_cell_def py_mod_def except_RuntimeError_pass_state)

text \<open>The three ways a cell is left blank.\<close>

lemma tile_cell_outcome:
  assumes n: "number_of_tiles (self_trans s) \<noteq> 0"
    and x: "x = (first_tile_x (self_trans s) + xx) mod number_of_tiles (self_trans s)"
  shows "download (zoom (self_trans s)) x y = Inl e \<Longrightarrow>
           tile_cell lib download yy y xx s =
             (if is_RuntimeError e then None else Some e,
              s\<lparr>calls := calls s @ [Download (zoom (self_trans s)) x y]\<rparr>)"
    and "download (zoom (self_trans s)) x y = Inr None \<Longrightarrow>
           tile_cell lib download yy y xx s =
             (None, s\<lparr>calls := calls s @ [Download (zoom (self_trans s)) x y]\<rparr>)"
    and "download (zoom (self_trans s)) x y = Inr (Some image_data) \<Longrightarrow>
         create_image lib image_data = Inl e \<Longrightarrow>
           tile_cell lib download yy y xx s =
             (if is_RuntimeError e then None else Some e,
              s\<lparr>calls := calls s @ [Download (zoom (self_trans s)) x y]\<rparr>)"
  using n x
  by (simp_all add: tile_cell_def py_mod_def except_RuntimeError_pass_def tile_try_def
      fetch_tile_def Let_def)

lemma set_py_range: "set (py_range a b) = {a..<b}"
  by (auto simp: py_range_def)

lemma render_tiles_state:
  fixes self :: "'o renderer"
  defines "t \<equiv> self_trans self"
  shows "\<exists>evs. snd (render_tiles lib download objects tighten self) =
                 self\<lparr>calls := calls self @ evs\<rparr> \<and>
          (\<forall>z x y. Download z x y \<in> set evs \<longrightarrow>
             z = zoom t \<and> 0 \<le> x \<and> x < number_of_tiles t \<and> 0 \<le> y \<and> y < number_of_tiles t \<and>
             (\<exists>xx yy. 0 \<le> xx \<and> xx < tiles_x t \<and> 0 \<le> yy \<and> yy < tiles_y t \<and>
                x = (first_tile_x t + xx) mod number_of_tiles t \<and> y = first_tile_y t + yy))"
proof -
  define P where "P z x y \<longleftrightarrow>
      z = zoom t \<and> 0 \<le> x \<and> x < number_of_tiles t \<and> 0 \<le> y \<and> y < number_of_tiles t \<and>
      (\<exists>xx yy. 0 \<le> xx \<and> xx < tiles_x t \<and> 0 \<le> yy \<and> yy < tiles_y t \<and>
         x = (first_tile_x t + xx) mod number_of_tiles t \<and> y = first_tile_y t + yy)" for z x y
  define I where "I s \<longleftrightarrow>
      (\<exists>evs. s = self\<lparr>calls := calls self @ evs\<rparr> \<and> (\<forall>z x y. Download z x y \<in> set evs \<longrightarrow> P z x y))"
    for s :: "'o renderer"
  have I0: "I self" unfolding I_def by (intro exI[of _ "[]"]) simp
  have It: "self_trans s = t" if "I s" for s using that unfolding I_def t_def by auto
  have cell: "I (snd (tile_cell lib download yy (first_tile_y t + yy) xx s))"
    if yy: "0 \<le> yy" "yy < tiles_y t" and xx: "0 \<le> xx" "xx < tiles_x t"
      and y: "0 \<le> first_tile_y t + yy" "first_tile_y t + yy < number_of_tiles t"
      and s: "I s" for yy xx s
  proof -
    let ?y = "first_tile_y t + yy"
    let ?x = "(first_tile_x t + xx) mod number_of_tiles t"
    have n: "0 < number_of_tiles t" using y by linarith
    from s obtain evs where evs: "s = self\<lparr>calls := calls self @ evs\<rparr>"
      and good: "\<forall>z x y. Download z x y \<in> set evs \<longrightarrow> P z x y" unfolding I_def by blast
    have st: "self_trans s = t" by (rule It[OF s])
    from tile_cell_state[of s lib download yy ?y xx] n st
    obtain evs' where s': "snd (tile_cell lib download yy ?y xx s) =
          s\<lparr>calls := calls s @ Download (zoom t) ?x ?y # evs'\<rparr>"
      and nod: "\<forall>z x' y'. Download z x' y' \<notin> set evs'" by auto
    have Px: "P (zoom t) ?x ?y"
      unfolding P_def using n yy xx y by auto
    show ?thesis unfolding I_def
    proof (intro exI[of _ "evs @ Download (zoom t) ?x ?y # evs'"] conjI allI impI)
      show "snd (tile_cell lib download yy ?y xx s) =
            self\<lparr>calls := calls self @ evs @ Download (zoom t) ?x ?y # evs'\<rparr>"
        using s' evs by simp
    next
      fix z x y assume "Download z x y \<in> set (evs @ Download (zoom t) ?x ?y # evs')"
      then show "P z x y" using good nod Px by auto
    qed
  qed
  have row: "I (snd (tile_row lib download yy s))"
    if yy: "yy \<in> set (py_range 0 (tiles_y t))" and s: "I s" for yy s
  proof (cases "first_tile_y t + yy < 0 \<or> first_tile_y t + yy \<ge> number_of_tiles t")
    case True
    then show ?thesis using s It[OF s] by (simp add: tile_row_def Let_def)
  next
    case False
    have r: "tile_row lib download yy s =
        for_each (py_range 0 (tiles_x t)) (tile_cell lib download yy (first_tile_y t + yy)) s"
      using False It[OF s] by (simp add: tile_row_def Let_def)
    show ?thesis unfolding r
    proof (rule for_each_invariant[where I = I])
      show "I s" by fact
    next
      fix xx s' assume "xx \<in> set (py_range 0 (tiles_x t))" and "I s'"
      then show "I (snd (tile_cell lib download yy (first_tile_y t + yy) xx s'))"
        using cell[of yy xx s'] yy False by (simp add: set_py_range)
    qed
  qed
  have "I (snd (render_tiles lib download objects tighten self))"
    unfolding render_tiles_def t_def[symmetric]
    by (rule for_each_invariant[where I = I]) (use row I0 in auto)
  then show ?thesis unfolding I_def P_def by blast
qed

subsection \<open>Tile indices passed to the fetch callback\<close>

text \<open>
  C2. Every \<^verbatim>\<open>download\<close> call that \<^verbatim>\<open>render_tiles\<close> makes has the transformer's zoom,
  an \<open>x\<close> with \<open>0 \<le> x < number_of_tiles\<close> that is \<open>(first_tile_x + xx) mod number_of_tiles\<close>
  for a column \<open>xx\<close> of the grid, and a \<open>y\<close> with \<open>0 \<le> y < number_of_tiles\<close> that is
  \<open>first_tile_y + yy\<close> for a row \<open>yy\<close> of the grid, whatever the sign or size of
  \<open>first_tile_x\<close>. A row whose \<open>first_tile_y + yy\<close> is outside that range is passed over:
  no call, no exception, the renderer as it was. The body of the inner loop makes exactly
  one \<^verbatim>\<open>download\<close> call, with the wrapped \<open>x\<close>.
\<close>

theorem render_tiles_download_indices:
  "(\<exists>evs. calls (snd (render_tiles lib download objects tighten self)) = calls self @ evs \<and>
      (\<forall>z x y. Download z x y \<in> set evs \<longrightarrow>
         z = zoom (self_trans self) \<and>
         0 \<le> x \<and> x < number_of_tiles (self_trans self) \<and>
         0 \<le> y \<and> y < number_of_tiles (self_trans self) \<and>
         (\<exists>xx yy. 0 \<le> xx \<and> xx < tiles_x (self_trans self) \<and>
            0 \<le> yy \<and> yy < tiles_y (self_trans self) \<and>
            x = (first_tile_x (self_trans self) + xx) mod number_of_tiles (self_trans self) \<and>
            y = first_tile_y (self_trans self) + yy))) \<and>
   (first_tile_y (self_trans self) + yy < 0 \<or>
    first_tile_y (self_trans self) + yy \<ge> number_of_tiles (self_trans self) \<longrightarrow>
      tile_row lib download yy self = (None, self)) \<and>
   (number_of_tiles (self_trans self) \<noteq> 0 \<longrightarrow>
      (\<exists>evs. calls (snd (tile_cell lib download yy y xx self)) =
          calls self @
          Download (zoom (self_trans self))
            ((first_tile_x (self_trans self) + xx) mod number_of_tiles (self_trans self)) y # evs \<and>
          (\<forall>z x' y'. Download z x' y' \<notin> set evs)))"
proof (intro conjI impI)
  from render_tiles_state[of lib download objects tighten self]
  obtain evs where s: "snd (render_tiles lib download objects tighten self) =
                 self\<lparr>calls := calls self @ evs\<rparr>"
    and g: "\<forall>z x y. Download z x y \<in> set evs \<longrightarrow>
         z = zoom (self_trans self) \<and>
         0 \<le> x \<and> x < number_of_tiles (self_trans self) \<and>
         0 \<le> y \<and> y < number_of_tiles (self_trans self) \<and>
         (\<exists>xx yy. 0 \<le> xx \<and> xx < tiles_x (self_trans self) \<and>
            0 \<le> yy \<and> yy < tiles_y (self_trans self) \<and>
            x = (first_tile_x (self_trans self) + xx) mod number_of_tiles (self_trans self) \<and>
            y = first_tile_y (self_trans self) + yy)" by blast
  have "calls (snd (render_tiles lib download objects tighten self)) = calls self @ evs"
    by (simp add: s)
  with g show "\<exists>evs. calls (snd (render_tiles lib download objects tighten self)) = calls self @ evs \<and>
      (\<forall>z x y. Download z x y \<in> set evs \<longrightarrow>
         z = zoom (self_trans self) \<and>
         0 \<le> x \<and> x < number_of_tiles (self_trans self) \<and>
         0 \<le> y \<and> y < number_of_tiles (self_trans self) \<and>
         (\<exists>xx yy. 0 \<le> xx \<and> xx < tiles_x (self_trans self) \<and>
            0 \<le> yy \<and> yy < tiles_y (self_trans self) \<and>
            x = (first_tile_x (self_trans self) + xx) mod number_of_tiles (self_trans self) \<and>
            y = first_tile_y (self_trans self) + yy))" by blast
next
  assume "first_tile_y (self_trans self) + yy < 0 \<or>
    first_tile_y (self_trans self) + yy \<ge> number_of_tiles (self_trans self)"
  then show "tile_row lib download yy self = (None, self)"
    by (simp add: tile_row_def Let_def)
next
  assume n: "number_of_tiles (self_trans self) \<noteq> 0"
  from tile_cell_state[OF n, of lib download yy y xx]
  obtain evs where s: "snd (tile_cell lib download yy y xx self) =
           self\<lparr>calls := calls self @
              Download (zoom (self_trans self))
                ((first_tile_x (self_trans self) + xx) mod number_of_tiles (self_trans self)) y # evs\<rparr>"
    and nd: "\<forall>z x' y'. Download z x' y' \<notin> set evs" by blast
  show "\<exists>evs. calls (snd (tile_cell lib download yy y xx self)) =
          calls self @
          Download (zoom (self_trans self))
            ((first_tile_x (self_trans self) + xx) mod number_of_tiles (self_trans self)) y # evs \<and>
          (\<forall>z x' y'. Download z x' y' \<notin> set evs)"
    using nd by (intro exI[of _ evs]) (simp add: s)
qed

theorem render_tiles_download_indices_witness:
  "Download 1 0 1 \<in> set (calls (snd (render_tiles ex_lib ex_download [] False ex_renderer))) \<and>
   (0::int) < number_of_tiles (self_trans ex_renderer) \<and>
   (1::int) < number_of_tiles (self_trans ex_renderer) \<and>
   tile_row ex_lib ex_download 0 ex_renderer = (None, ex_renderer)"
proof -
  have m: "Download 1 0 1 \<in> set (calls (snd (render_tiles ex_lib ex_download [] False ex_renderer)))"
    by code_simp
  have e: "calls ex_renderer = []" by (simp add: ex_renderer_def)
  have y: "first_tile_y (self_trans ex_renderer) + 0 < 0 \<or>
    first_tile_y (self_trans ex_renderer) + 0 \<ge> number_of_tiles (self_trans ex_renderer)"
    by (simp add: ex_renderer_def ex_trans_def)
  from render_tiles_download_indices[of ex_lib ex_download "[]" False ex_renderer 0 0 0] m e y
  show ?thesis by auto
qed

subsection \<open>Absorbed failures in \<^verbatim>\<open>render_tiles\<close>\<close>

lemma tile_cell_paint:
  assumes n: "number_of_tiles (self_trans s) \<noteq> 0"
    and x: "x = (first_tile_x (self_trans s) + xx) mod number_of_tiles (self_trans s)"
    and d: "download (zoom (self_trans s)) x y = Inr (Some image_data)"
    and c: "create_image lib image_data = Inr img"
  shows "tile_cell lib download yy y xx s =
           (None, s\<lparr>calls := calls s @
              [Download (zoom (self_trans s)) x y, Ctx Save,
               Ctx (Translate
                 (of_int (py_int (of_int (xx * tile_size (self_trans s)) + tile_offset_x (self_trans s))))
                 (of_int (py_int (of_int (yy * tile_size (self_trans s)) + tile_offset_y (self_trans s))))),
               Ctx (SetSourceSurface img), Ctx Paint, Ctx Restore]\<rparr>)"
  using n x d c
  by (simp add: tile_cell_def py_mod_def except_RuntimeError_pass_def tile_try_def
      fetch_tile_def Let_def paint_tile del: seq.simps)

lemma tile_cell_returns:
  assumes n: "number_of_tiles (self_trans s) \<noteq> 0"
    and dl: "\<forall>z x y e. download z x y = Inl e \<longrightarrow> is_RuntimeError e"
    and ci: "\<forall>d e. create_image lib d = Inl e \<longrightarrow> is_RuntimeError e"
  shows "fst (tile_cell lib download yy y xx s) = None"
proof -
  let ?x = "(first_tile_x (self_trans s) + xx) mod number_of_tiles (self_trans s)"
  show ?thesis
  proof (cases "download (zoom (self_trans s)) ?x y")
    case (Inl e)
    then show ?thesis
      using tile_cell_outcome(1)[where s = s and x = ?x and xx = xx and download = download
          and y = y and e = e and lib = lib and yy = yy] n dl by simp
  next
    case (Inr v)
    show ?thesis
    proof (cases v)
      case None
      then show ?thesis
        using tile_cell_outcome(2)[where s = s and x = ?x and xx = xx and download = download
            and y = y and lib = lib and yy = yy] n Inr by simp
    next
      case (Some d)
      show ?thesis
      proof (cases "create_image lib d")
        case (Inl e)
        then show ?thesis
          using tile_cell_outcome(3)[where s = s and x = ?x and xx = xx and download = download
              and y = y and lib = lib and yy = yy and image_data = d and e = e] n Inr Some ci
          by simp
      next
        case r: (Inr img)
        then show ?thesis
          using tile_cell_paint[where s = s and x = ?x and xx = xx and download = download
              and y = y and lib = lib and yy = yy and image_data = d and img = img] n Inr Some
          by simp
      qed
    qed
  qed
qed

lemma for_each_returns:
  assumes step: "\<And>x s. x \<in> set xs \<Longrightarrow> I s \<Longrightarrow> fst (body x s) = None \<and> I (snd (body x s))"
    and init: "I s"
  shows "fst (for_each xs body s) = None \<and> I (snd (for_each xs body s))"
  using assms
proof (induction xs arbitrary: s)
  case Nil
  then show ?case by (simp add: for_each_Nil)
next
  case (Cons x xs)
  obtain r s' where b: "body x s = (r, s')" by (cases "body x s")
  from Cons.prems(1)[of x s] Cons.prems(2) b have r: "r = None" and I': "I s'" by auto
  have "fst (for_each xs body s') = None \<and> I (snd (for_each xs body s'))"
    by (rule Cons.IH) (use Cons.prems(1) I' in auto)
  then show ?case using b r by (simp add: for_each_Cons)
qed

lemma tile_cell_trans: "self_trans (snd (tile_cell lib download yy y xx s)) = self_trans s"
proof (cases "number_of_tiles (self_trans s) = 0")
  case True
  then show ?thesis by (simp add: tile_cell_def py_mod_def)
next
  case False
  from tile_cell_state[OF False, of lib download yy y xx] show ?thesis by auto
qed

lemma render_tiles_returns:
  assumes dl: "\<forall>z x y e. download z x y = Inl e \<longrightarrow> is_RuntimeError e"
    and ci: "\<forall>d e. create_image lib d = Inl e \<longrightarrow> is_RuntimeError e"
  shows "fst (render_tiles lib download objects tighten self) = None"
proof -
  let ?t = "self_trans self"
  let ?I = "\<lambda>s::'a renderer. self_trans s = ?t"
  have row: "fst (tile_row lib download yy s) = None \<and> ?I (snd (tile_row lib download yy s))"
    if s: "?I s" for yy s
  proof (cases "first_tile_y ?t + yy < 0 \<or> first_tile_y ?t + yy \<ge> number_of_tiles ?t")
    case True
    then show ?thesis using s by (simp add: tile_row_def Let_def)
  next
    case False
    have r: "tile_row lib download yy s =
        for_each (py_range 0 (tiles_x ?t)) (tile_cell lib download yy (first_tile_y ?t + yy)) s"
      using False s by (simp add: tile_row_def Let_def)
    have n: "number_of_tiles ?t \<noteq> 0" using False by auto
    show ?thesis unfolding r
    proof (rule for_each_returns[where I = ?I])
      show "?I s" by fact
    next
      fix xx s' assume "?I s'"
      then show "fst (tile_cell lib download yy (first_tile_y ?t + yy) xx s') = None \<and>
            ?I (snd (tile_cell lib download yy (first_tile_y ?t + yy) xx s'))"
        using tile_cell_returns[of s' download lib yy "first_tile_y ?t + yy" xx] n dl ci
        by (simp add: tile_cell_trans)
    qed
  qed
  have "fst (for_each (py_range 0 (tiles_y ?t)) (tile_row lib download) self) = None \<and>
        ?I (snd (for_each (py_range 0 (tiles_y ?t)) (tile_row lib download) self))"
    by (rule for_each_returns[where I = ?I]) (use row in auto)
  then show ?thesis by (simp add: render_tiles_def)
qed

lemma seq_single: "seq [m] s = m s"
  by (cases "m s") (auto split: option.splits)

lemma py_range_split:
  assumes "0 \<le> k" and "k < n"
  shows "py_range 0 n = py_range 0 k @ k # py_range (k + 1) n"
  using assms upto_split3[of 0 k "n - 1"] by (simp add: py_range_def)

lemma tile_row_trans: "self_trans (snd (tile_row lib download yy s)) = self_trans s"
proof (cases "first_tile_y (self_trans s) + yy < 0 \<or>
    first_tile_y (self_trans s) + yy \<ge> number_of_tiles (self_trans s)")
  case True
  then show ?thesis by (simp add: tile_row_def Let_def)
next
  case False
  have "self_trans (snd (for_each (py_range 0 (tiles_x (self_trans s)))
      (tile_cell lib download yy (first_tile_y (self_trans s) + yy)) s)) = self_trans s"
    by (rule for_each_invariant[where I = "\<lambda>s'. self_trans s' = self_trans s"])
       (simp_all add: tile_cell_trans)
  then show ?thesis using False by (simp add: tile_row_def Let_def)
qed

lemma for_each_trans:
  assumes "\<And>x s. self_trans (snd (body x s)) = self_trans s"
  shows "self_trans (snd (for_each xs body s)) = self_trans s"
  by (rule for_each_invariant[where I = "\<lambda>s'. self_trans s' = self_trans s"])
     (simp_all add: assms)

lemma render_tiles_at_cell:
  assumes yy: "0 \<le> yy" "yy < tiles_y (self_trans self)"
    and xx: "0 \<le> xx" "xx < tiles_x (self_trans self)"
    and y: "0 \<le> first_tile_y (self_trans self) + yy"
           "first_tile_y (self_trans self) + yy < number_of_tiles (self_trans self)"
    and r1: "for_each (py_range 0 yy) (tile_row lib download) self = (None, s1)"
    and r2: "for_each (py_range 0 xx)
               (tile_cell lib download yy (first_tile_y (self_trans self) + yy)) s1 = (None, s2)"
  shows "self_trans s2 = self_trans self"
    and "render_tiles lib download objects tighten self =
       (case tile_cell lib download yy (first_tile_y (self_trans self) + yy) xx s2 of
          (Some e, s3) \<Rightarrow> (Some e, s3)
        | (None, s3) \<Rightarrow>
            seq [for_each (py_range (xx + 1) (tiles_x (self_trans self)))
                   (tile_cell lib download yy (first_tile_y (self_trans self) + yy)),
                 for_each (py_range (yy + 1) (tiles_y (self_trans self)))
                   (tile_row lib download)] s3)"
proof -
  let ?t = "self_trans self"
  let ?y = "first_tile_y ?t + yy"
  let ?cells = "tile_cell lib download yy ?y"
  let ?rows = "tile_row lib download"
  have t1: "self_trans s1 = ?t"
    using for_each_trans[of ?rows "py_range 0 yy" self, OF tile_row_trans] r1 by simp
  show t2: "self_trans s2 = ?t"
    using for_each_trans[of ?cells "py_range 0 xx" s1, OF tile_cell_trans] r2 t1 by simp
  have row: "tile_row lib download yy s1 =
      for_each (py_range 0 (tiles_x ?t)) ?cells s1"
    using y t1 by (simp add: tile_row_def Let_def)
  have cells: "for_each (py_range 0 (tiles_x ?t)) ?cells s1 =
      (case ?cells xx s2 of
         (Some e, s3) \<Rightarrow> (Some e, s3)
       | (None, s3) \<Rightarrow> for_each (py_range (xx + 1) (tiles_x ?t)) ?cells s3)"
    unfolding py_range_split[OF xx] for_each_append r2
    by (simp add: for_each_Cons)
  have rows: "render_tiles lib download objects tighten self =
      (case tile_row lib download yy s1 of
         (Some e, s') \<Rightarrow> (Some e, s')
       | (None, s') \<Rightarrow> for_each (py_range (yy + 1) (tiles_y ?t)) ?rows s')"
    unfolding render_tiles_def py_range_split[OF yy] for_each_append r1
    by (simp add: for_each_Cons)
  show "render_tiles lib download objects tighten self =
       (case ?cells xx s2 of
          (Some e, s3) \<Rightarrow> (Some e, s3)
        | (None, s3) \<Rightarrow>
            seq [for_each (py_range (xx + 1) (tiles_x ?t)) ?cells,
                 for_each (py_range (yy + 1) (tiles_y ?t)) ?rows] s3)"
    unfolding rows row cells
    by (auto simp: seq_single split: prod.splits option.splits)
qed

lemma tile_cell_all_absorbed:
  assumes n: "number_of_tiles (self_trans s) \<noteq> 0"
    and dl: "\<forall>z x y e. download z x y = Inl e \<longrightarrow> is_RuntimeError e"
    and ci: "\<forall>d e. create_image lib d = Inl e \<longrightarrow> is_RuntimeError e"
  shows "tile_cell lib download yy y xx s =
     (None,
      s\<lparr>calls := calls s @
         Download (zoom (self_trans s))
           ((first_tile_x (self_trans s) + xx) mod number_of_tiles (self_trans s)) y #
         (case download (zoom (self_trans s))
                 ((first_tile_x (self_trans s) + xx) mod number_of_tiles (self_trans s)) y of
            Inr (Some image_data) \<Rightarrow>
              (case create_image lib image_data of
                 Inr img \<Rightarrow>
                   [Ctx Save,
                    Ctx (Translate
                      (of_int (py_int (of_int (xx * tile_size (self_trans s)) + tile_offset_x (self_trans s))))
                      (of_int (py_int (of_int (yy * tile_size (self_trans s)) + tile_offset_y (self_trans s))))),
                    Ctx (SetSourceSurface img), Ctx Paint, Ctx Restore]
               | Inl e \<Rightarrow> [])
          | _ \<Rightarrow> [])\<rparr>)"
proof -
  let ?x = "(first_tile_x (self_trans s) + xx) mod number_of_tiles (self_trans s)"
  show ?thesis
  proof (cases "download (zoom (self_trans s)) ?x y")
    case (Inl e)
    then show ?thesis
      using tile_cell_outcome(1)[where s = s and x = ?x and xx = xx and download = download
          and y = y and e = e and lib = lib and yy = yy] n dl by simp
  next
    case (Inr v)
    show ?thesis
    proof (cases v)
      case None
      then show ?thesis
        using tile_cell_outcome(2)[where s = s and x = ?x and xx = xx and download = download
            and y = y and lib = lib and yy = yy] n Inr by simp
    next
      case (Some d)
      show ?thesis
      proof (cases "create_image lib d")
        case (Inl e)
        then show ?thesis
          using tile_cell_outcome(3)[where s = s and x = ?x and xx = xx and download = download
              and y = y and lib = lib and yy = yy and image_data = d and e = e] n Inr Some ci
          by simp
      next
        case r: (Inr img)
        then show ?thesis
          using tile_cell_paint[where s = s and x = ?x and xx = xx and download = download
              and y = y and lib = lib and yy = yy and image_data = d and img = img] n Inr Some
          by simp
      qed
    qed
  qed
qed

lemma render_tiles_all_absorbed:
  assumes dl: "\<forall>z x y e. download z x y = Inl e \<longrightarrow> is_RuntimeError e"
    and ci: "\<forall>d e. create_image lib d = Inl e \<longrightarrow> is_RuntimeError e"
  shows "calls (snd (render_tiles lib download objects tighten self)) =
     calls self @
     concat (map (\<lambda>yy.
       if first_tile_y (self_trans self) + yy < 0 \<or>
          first_tile_y (self_trans self) + yy \<ge> number_of_tiles (self_trans self) then []
       else concat (map (\<lambda>xx.
         Download (zoom (self_trans self))
           ((first_tile_x (self_trans self) + xx) mod number_of_tiles (self_trans self))
           (first_tile_y (self_trans self) + yy) #
         (case download (zoom (self_trans self))
                 ((first_tile_x (self_trans self) + xx) mod number_of_tiles (self_trans self))
                 (first_tile_y (self_trans self) + yy) of
            Inr (Some image_data) \<Rightarrow>
              (case create_image lib image_data of
                 Inr img \<Rightarrow>
                   [Ctx Save,
                    Ctx (Translate
                      (of_int (py_int (of_int (xx * tile_size (self_trans self)) + tile_offset_x (self_trans self))))
                      (of_int (py_int (of_int (yy * tile_size (self_trans self)) + tile_offset_y (self_trans self))))),
                    Ctx (SetSourceSurface img), Ctx Paint, Ctx Restore]
               | Inl e \<Rightarrow> [])
          | _ \<Rightarrow> []))
         (py_range 0 (tiles_x (self_trans self)))))
       (py_range 0 (tiles_y (self_trans self))))"
    (is "_ = calls self @ concat (map ?rowev _)")
proof -
  let ?t = "self_trans self"
  let ?I = "\<lambda>s::'a renderer. self_trans s = ?t"
  let ?cellev = "\<lambda>yy xx.
         Download (zoom ?t) ((first_tile_x ?t + xx) mod number_of_tiles ?t) (first_tile_y ?t + yy) #
         (case download (zoom ?t) ((first_tile_x ?t + xx) mod number_of_tiles ?t) (first_tile_y ?t + yy) of
            Inr (Some image_data) \<Rightarrow>
              (case create_image lib image_data of
                 Inr img \<Rightarrow>
                   [Ctx Save,
                    Ctx (Translate
                      (of_int (py_int (of_int (xx * tile_size ?t) + tile_offset_x ?t)))
                      (of_int (py_int (of_int (yy * tile_size ?t) + tile_offset_y ?t)))),
                    Ctx (SetSourceSurface img), Ctx Paint, Ctx Restore]
               | Inl e \<Rightarrow> [])
          | _ \<Rightarrow> [])"
  have row: "fst (tile_row lib download yy s) = None \<and> ?I (snd (tile_row lib download yy s)) \<and>
        calls (snd (tile_row lib download yy s)) = calls s @ ?rowev yy"
    if s: "?I s" for yy s
  proof (cases "first_tile_y ?t + yy < 0 \<or> first_tile_y ?t + yy \<ge> number_of_tiles ?t")
    case True
    then show ?thesis using s by (simp add: tile_row_def Let_def)
  next
    case False
    have r: "tile_row lib download yy s =
        for_each (py_range 0 (tiles_x ?t)) (tile_cell lib download yy (first_tile_y ?t + yy)) s"
      using False s by (simp add: tile_row_def Let_def)
    have n: "number_of_tiles ?t \<noteq> 0" using False by auto
    have "fst (for_each (py_range 0 (tiles_x ?t)) (tile_cell lib download yy (first_tile_y ?t + yy)) s) = None \<and>
          ?I (snd (for_each (py_range 0 (tiles_x ?t)) (tile_cell lib download yy (first_tile_y ?t + yy)) s)) \<and>
          calls (snd (for_each (py_range 0 (tiles_x ?t)) (tile_cell lib download yy (first_tile_y ?t + yy)) s)) =
            calls s @ concat (map (?cellev yy) (py_range 0 (tiles_x ?t)))"
    proof (rule for_each_calls[where I = ?I])
      show "?I s" by fact
    next
      fix xx s' assume I': "?I s'"
      have n': "number_of_tiles (self_trans s') \<noteq> 0" using n I' by simp
      show "fst (tile_cell lib download yy (first_tile_y ?t + yy) xx s') = None \<and>
            ?I (snd (tile_cell lib download yy (first_tile_y ?t + yy) xx s')) \<and>
            calls (snd (tile_cell lib download yy (first_tile_y ?t + yy) xx s')) =
              calls s' @ ?cellev yy xx"
        unfolding tile_cell_all_absorbed[OF n' dl ci] I' using I' by simp
    qed
    then show ?thesis unfolding r using False by simp
  qed
  have "fst (for_each (py_range 0 (tiles_y ?t)) (tile_row lib download) self) = None \<and>
        ?I (snd (for_each (py_range 0 (tiles_y ?t)) (tile_row lib download) self)) \<and>
        calls (snd (for_each (py_range 0 (tiles_y ?t)) (tile_row lib download) self)) =
          calls self @ concat (map ?rowev (py_range 0 (tiles_y ?t)))"
    by (rule for_each_calls[where I = ?I]) (use row in auto)
  then show ?thesis by (simp add: render_tiles_def)
qed

text \<open>
  C3, as the code has it. When the fetch callback raises for a tile cell, the exception
  leaves the cell only if it is not a \<^verbatim>\<open>RuntimeError\<close>: a \<^verbatim>\<open>RuntimeError\<close> (or an
  exception of a subclass) is absorbed and nothing is drawn for the cell (the one call on
  record is the fetch itself). For \<^verbatim>\<open>render_tiles\<close> as a whole: when it has come to the
  cell \<open>(xx, yy)\<close> of the grid (the rows before and the cells before in the row have
  returned normally) and the callback raises there, then on a \<^verbatim>\<open>RuntimeError\<close> it goes on
  with the remaining cells of the row and then the remaining rows, from a state that differs
  only by the record of the fetch, and on any other exception it ends with that exception.
  If every exception the callback and the decoder can raise is a \<^verbatim>\<open>RuntimeError\<close>,
  \<^verbatim>\<open>render_tiles\<close> returns normally, having fetched every cell of every row in range, in
  order, and painted exactly those for which a surface came back.
\<close>

theorem fetch_RuntimeError_absorbed:
  "(number_of_tiles (self_trans self) \<noteq> 0 \<and>
    download (zoom (self_trans self))
      ((first_tile_x (self_trans self) + xx) mod number_of_tiles (self_trans self)) y = Inl e \<longrightarrow>
      tile_cell lib download yy y xx self =
        (if is_RuntimeError e then None else Some e,
         self\<lparr>calls := calls self @
           [Download (zoom (self_trans self))
              ((first_tile_x (self_trans self) + xx) mod number_of_tiles (self_trans self)) y]\<rparr>) \<and>
      (is_RuntimeError e \<longrightarrow>
         for_each (xx # rest) (tile_cell lib download yy y) self =
         for_each rest (tile_cell lib download yy y)
           (self\<lparr>calls := calls self @
             [Download (zoom (self_trans self))
                ((first_tile_x (self_trans self) + xx) mod number_of_tiles (self_trans self)) y]\<rparr>))) \<and>
   (0 \<le> yy \<and> yy < tiles_y (self_trans self) \<and> 0 \<le> xx \<and> xx < tiles_x (self_trans self) \<and>
    0 \<le> first_tile_y (self_trans self) + yy \<and>
    first_tile_y (self_trans self) + yy < number_of_tiles (self_trans self) \<and>
    for_each (py_range 0 yy) (tile_row lib download) self = (None, s1) \<and>
    for_each (py_range 0 xx)
      (tile_cell lib download yy (first_tile_y (self_trans self) + yy)) s1 = (None, s2) \<and>
    download (zoom (self_trans self))
      ((first_tile_x (self_trans self) + xx) mod number_of_tiles (self_trans self))
      (first_tile_y (self_trans self) + yy) = Inl e \<longrightarrow>
      render_tiles lib download objects tighten self =
        (if is_RuntimeError e
         then seq [for_each (py_range (xx + 1) (tiles_x (self_trans self)))
                     (tile_cell lib download yy (first_tile_y (self_trans self) + yy)),
                   for_each (py_range (yy + 1) (tiles_y (self_trans self)))
                     (tile_row lib download)]
                (s2\<lparr>calls := calls s2 @
                   [Download (zoom (self_trans self))
                      ((first_tile_x (self_trans self) + xx) mod number_of_tiles (self_trans self))
                      (first_tile_y (self_trans self) + yy)]\<rparr>)
         else (Some e,
               s2\<lparr>calls := calls s2 @
                  [Download (zoom (self_trans self))
                     ((first_tile_x (self_trans self) + xx) mod number_of_tiles (self_trans self))
                     (first_tile_y (self_trans self) + yy)]\<rparr>))) \<and>
   ((\<forall>z x y e. download z x y = Inl e \<longrightarrow> is_RuntimeError e) \<and>
    (\<forall>d e. create_image lib d = Inl e \<longrightarrow> is_RuntimeError e) \<longrightarrow>
      fst (render_tiles lib download objects tighten self) = None \<and>
      calls (snd (render_tiles lib download objects tighten self)) =
        calls self @
        concat (map (\<lambda>yy.
          if first_tile_y (self_trans self) + yy < 0 \<or>
             first_tile_y (self_trans self) + yy \<ge> number_of_tiles (self_trans self) then []
          else concat (map (\<lambda>xx.
            Download (zoom (self_trans self))
              ((first_tile_x (self_trans self) + xx) mod number_of_tiles (self_trans self))
              (first_tile_y (self_trans self) + yy) #
            (case download (zoom (self_trans self))
                    ((first_tile_x (self_trans self) + xx) mod number_of_tiles (self_trans self))
                    (first_tile_y (self_trans self) + yy) of
               Inr (Some image_data) \<Rightarrow>
                 (case create_image lib image_data of
                    Inr img \<Rightarrow>
                      [Ctx Save,
                       Ctx (Translate
                         (of_int (py_int (of_int (xx * tile_size (self_trans self)) + tile_offset_x (self_trans self))))
                         (of_int (py_int (of_int (yy * tile_size (self_trans self)) + tile_offset_y (self_trans self))))),
                       Ctx (SetSourceSurface img), Ctx Paint, Ctx Restore]
                  | Inl e \<Rightarrow> [])
             | _ \<Rightarrow> []))
            (py_range 0 (tiles_x (self_trans self)))))
          (py_range 0 (tiles_y (self_trans self)))))"
proof (intro conjI impI; (elim conjE)?)
  let ?x = "(first_tile_x (self_trans self) + xx) mod number_of_tiles (self_trans self)"
  let ?s' = "self\<lparr>calls := calls self @ [Download (zoom (self_trans self)) ?x y]\<rparr>"
  {
    assume n: "number_of_tiles (self_trans self) \<noteq> 0"
      and d: "download (zoom (self_trans self)) ?x y = Inl e"
    show c: "tile_cell lib download yy y xx self = (if is_RuntimeError e then None else Some e, ?s')"
      using tile_cell_outcome(1)[where s = self and x = ?x and xx = xx and download = download
          and y = y and e = e and lib = lib and yy = yy] n d by simp
    assume "is_RuntimeError e"
    then show "for_each (xx # rest) (tile_cell lib download yy y) self =
         for_each rest (tile_cell lib download yy y) ?s'"
      using c by (simp add: for_each_Cons)
  }
  {
    let ?y = "first_tile_y (self_trans self) + yy"
    assume g: "0 \<le> yy" "yy < tiles_y (self_trans self)" "0 \<le> xx" "xx < tiles_x (self_trans self)"
      "0 \<le> ?y" "?y < number_of_tiles (self_trans self)"
      and r1: "for_each (py_range 0 yy) (tile_row lib download) self = (None, s1)"
      and r2: "for_each (py_range 0 xx) (tile_cell lib download yy ?y) s1 = (None, s2)"
      and d: "download (zoom (self_trans self)) ?x ?y = Inl e"
    note at = render_tiles_at_cell(1)[OF g r1 r2]
      render_tiles_at_cell(2)[OF g r1 r2, where objects = objects and tighten = tighten]
    have n2: "number_of_tiles (self_trans s2) \<noteq> 0" using at(1) g by simp
    have c2: "tile_cell lib download yy ?y xx s2 =
        (if is_RuntimeError e then None else Some e,
         s2\<lparr>calls := calls s2 @ [Download (zoom (self_trans self)) ?x ?y]\<rparr>)"
      using tile_cell_outcome(1)[where s = s2 and x = ?x and xx = xx and download = download
          and y = ?y and e = e and lib = lib and yy = yy] n2 d at(1) by simp
    show "render_tiles lib download objects tighten self =
        (if is_RuntimeError e
         then seq [for_each (py_range (xx + 1) (tiles_x (self_trans self)))
                     (tile_cell lib download yy ?y),
                   for_each (py_range (yy + 1) (tiles_y (self_trans self)))
                     (tile_row lib download)]
                (s2\<lparr>calls := calls s2 @ [Download (zoom (self_trans self)) ?x ?y]\<rparr>)
         else (Some e, s2\<lparr>calls := calls s2 @ [Download (zoom (self_trans self)) ?x ?y]\<rparr>))"
      unfolding at(2) c2 by (simp del: seq.simps)
  }
  assume a: "\<forall>z x y e. download z x y = Inl e \<longrightarrow> is_RuntimeError e"
    and b: "\<forall>d e. create_image lib d = Inl e \<longrightarrow> is_RuntimeError e"
  show "fst (render_tiles lib download objects tighten self) = None"
    using a b by (rule render_tiles_returns)
  show "calls (snd (render_tiles lib download objects tighten self)) = calls self @
        concat (map (\<lambda>yy.
          if first_tile_y (self_trans self) + yy < 0 \<or>
             first_tile_y (self_trans self) + yy \<ge> number_of_tiles (self_trans self) then []
          else concat (map (\<lambda>xx.
            Download (zoom (self_trans self))
              ((first_tile_x (self_trans self) + xx) mod number_of_tiles (self_trans self))
              (first_tile_y (self_trans self) + yy) #
            (case download (zoom (self_trans self))
                    ((first_tile_x (self_trans self) + xx) mod number_of_tiles (self_trans self))
                    (first_tile_y (self_trans self) + yy) of
               Inr (Some image_data) \<Rightarrow>
                 (case create_image lib image_data of
                    Inr img \<Rightarrow>
                      [Ctx Save,
                       Ctx (Translate
                         (of_int (py_int (of_int (xx * tile_size (self_trans self)) + tile_offset_x (self_trans self))))
                         (of_int (py_int (of_int (yy * tile_size (self_trans self)) + tile_offset_y (self_trans self))))),
                       Ctx (SetSourceSurface img), Ctx Paint, Ctx Restore]
                  | Inl e \<Rightarrow> [])
             | _ \<Rightarrow> []))
            (py_range 0 (tiles_x (self_trans self)))))
          (py_range 0 (tiles_y (self_trans self))))"
    using a b by (rule render_tiles_all_absorbed)
qed

lemma ex_grid:
  "zoom (self_trans ex_renderer) = 1"
  "number_of_tiles (self_trans ex_renderer) = 2"
  "first_tile_x (self_trans ex_renderer) = - 1"
  "first_tile_y (self_trans ex_renderer) = - 1"
  "tiles_x (self_trans ex_renderer) = 5"
  "tiles_y (self_trans ex_renderer) = 4"
  "calls ex_renderer = []"
  by (simp_all add: ex_renderer_def ex_trans_def)

lemma ex_first_row_skipped:
  "for_each (py_range 0 1) (tile_row lib download) ex_renderer = (None, ex_renderer)"
  by (simp add: py_range_def for_each_def tile_row_def Let_def ex_grid)

lemma ex_no_cells_before:
  "for_each (py_range 0 0) body s = (None, s)"
  by (simp add: py_range_def for_each_def)

theorem fetch_RuntimeError_absorbed_witness:
  "ex_download_rt 1 1 0 = Inl RuntimeError \<and>
   tile_cell ex_lib_rt ex_download_rt 1 0 0 ex_renderer =
     (None, ex_renderer\<lparr>calls := [Download 1 1 0]\<rparr>) \<and>
   render_tiles ex_lib_rt ex_download_rt [] False ex_renderer =
     seq [for_each (py_range 1 5) (tile_cell ex_lib_rt ex_download_rt 1 0),
          for_each (py_range 2 4) (tile_row ex_lib_rt ex_download_rt)]
       (ex_renderer\<lparr>calls := [Download 1 1 0]\<rparr>) \<and>
   fst (render_tiles ex_lib_rt ex_download_rt [] False ex_renderer) = None \<and>
   calls (snd (render_tiles ex_lib_rt ex_download_rt [] False ex_renderer)) =
     [Download 1 1 0, Download 1 0 0, Download 1 1 0, Download 1 0 0, Download 1 1 0,
      Download 1 1 1, Download 1 0 1, Download 1 1 1, Download 1 0 1, Download 1 1 1]"
proof -
  have d: "ex_download_rt 1 1 0 = Inl RuntimeError"
    by (simp add: ex_download_rt_def)
  have a: "\<forall>z x y e. ex_download_rt z x y = Inl e \<longrightarrow> is_RuntimeError e"
    by (simp add: ex_download_rt_def)
  have b: "\<forall>d e. create_image ex_lib_rt d = Inl e \<longrightarrow> is_RuntimeError e"
    by (auto simp: create_image_def PIL_Image_open_def ex_lib_rt_def)
  have r1: "for_each (py_range 0 1) (tile_row ex_lib_rt ex_download_rt) ex_renderer =
      (None, ex_renderer)"
    by (rule ex_first_row_skipped)
  have r2: "for_each (py_range 0 0) (tile_cell ex_lib_rt ex_download_rt 1 0) ex_renderer =
      (None, ex_renderer)"
    by (rule ex_no_cells_before)
  have rng: "py_range 0 5 = [0, 1, 2, 3, 4]" "py_range 0 4 = [0, 1, 2, 3]"
    by (simp_all add: py_range_def upto.simps)
  note inst = fetch_RuntimeError_absorbed[where self = ex_renderer and download = ex_download_rt
      and lib = ex_lib_rt and xx = 0 and y = 0 and yy = 1 and e = RuntimeError and rest = "[1]"
      and objects = "[]" and tighten = False and ?s1.0 = ex_renderer and ?s2.0 = ex_renderer,
      unfolded ex_grid]
  have c1: "tile_cell ex_lib_rt ex_download_rt 1 0 0 ex_renderer =
     (None, ex_renderer\<lparr>calls := [Download 1 1 0]\<rparr>)"
    using inst[THEN conjunct1] by (simp add: ex_download_rt_def)
  have c2: "render_tiles ex_lib_rt ex_download_rt [] False ex_renderer =
     seq [for_each (py_range 1 5) (tile_cell ex_lib_rt ex_download_rt 1 0),
          for_each (py_range 2 4) (tile_row ex_lib_rt ex_download_rt)]
       (ex_renderer\<lparr>calls := [Download 1 1 0]\<rparr>)"
    using inst[THEN conjunct2, THEN conjunct1] r1 r2
    by (simp add: ex_download_rt_def del: seq.simps)
  have c3: "fst (render_tiles ex_lib_rt ex_download_rt [] False ex_renderer) = None \<and>
   calls (snd (render_tiles ex_lib_rt ex_download_rt [] False ex_renderer)) =
     [Download 1 1 0, Download 1 0 0, Download 1 1 0, Download 1 0 0, Download 1 1 0,
      Download 1 1 1, Download 1 0 1, Download 1 1 1, Download 1 0 1, Download 1 1 1]"
    using inst[THEN conjunct2, THEN conjunct2] a b
    by (simp add: rng ex_download_rt_def)
  show ?thesis using d c1 c2 c3 by (intro conjI) simp_all
qed

theorem fetch_error_propagates_counterexample:
  "ex_download_oserror 1 1 0 = Inl OSError \<and>
   fst (render_tiles ex_lib ex_download_oserror [] False ex_renderer) = Some OSError \<and>
   calls (snd (render_tiles ex_lib ex_download_oserror [] False ex_renderer)) = [Download 1 1 0]"
  by code_simp

text \<open>
  C4, as the code has it. When the tile bytes of a cell fail to decode (\<^verbatim>\<open>create_image\<close>
  raises), the exception leaves the cell only if it is not a \<^verbatim>\<open>RuntimeError\<close>: a
  \<^verbatim>\<open>RuntimeError\<close> is absorbed as a fetch failure is and nothing is drawn for the cell.
  For \<^verbatim>\<open>render_tiles\<close> as a whole: when it has come to the cell \<open>(xx, yy)\<close> of the grid
  (the rows before and the cells before in the row have returned normally) and decoding
  fails there, then on a \<^verbatim>\<open>RuntimeError\<close> it goes on with the remaining cells of the row
  and then the remaining rows, from a state that differs only by the record of the fetch,
  and on any other exception it ends with that exception.
\<close>

theorem decode_RuntimeError_absorbed:
  "(number_of_tiles (self_trans self) \<noteq> 0 \<and>
    download (zoom (self_trans self))
      ((first_tile_x (self_trans self) + xx) mod number_of_tiles (self_trans self)) y =
      Inr (Some image_data) \<and>
    create_image lib image_data = Inl e \<longrightarrow>
      tile_cell lib download yy y xx self =
        (if is_RuntimeError e then None else Some e,
         self\<lparr>calls := calls self @
           [Download (zoom (self_trans self))
              ((first_tile_x (self_trans self) + xx) mod number_of_tiles (self_trans self)) y]\<rparr>) \<and>
      (is_RuntimeError e \<longrightarrow>
         for_each (xx # rest) (tile_cell lib download yy y) self =
         for_each rest (tile_cell lib download yy y)
           (self\<lparr>calls := calls self @
             [Download (zoom (self_trans self))
                ((first_tile_x (self_trans self) + xx) mod number_of_tiles (self_trans self)) y]\<rparr>))) \<and>
   (0 \<le> yy \<and> yy < tiles_y (self_trans self) \<and> 0 \<le> xx \<and> xx < tiles_x (self_trans self) \<and>
    0 \<le> first_tile_y (self_trans self) + yy \<and>
    first_tile_y (self_trans self) + yy < number_of_tiles (self_trans self) \<and>
    for_each (py_range 0 yy) (tile_row lib download) self = (None, s1) \<and>
    for_each (py_range 0 xx)
      (tile_cell lib download yy (first_tile_y (self_trans self) + yy)) s1 = (None, s2) \<and>
    download (zoom (self_trans self))
      ((first_tile_x (self_trans self) + xx) mod number_of_tiles (self_trans self))
      (first_tile_y (self_trans self) + yy) = Inr (Some image_data) \<and>
    create_image lib image_data = Inl e \<longrightarrow>
      render_tiles lib download objects tighten self =
        (if is_RuntimeError e
         then seq [for_each (py_range (xx + 1) (tiles_x (self_trans self)))
                     (tile_cell lib download yy (first_tile_y (self_trans self) + yy)),
                   for_each (py_range (yy + 1) (tiles_y (self_trans self)))
                     (tile_row lib download)]
                (s2\<lparr>calls := calls s2 @
                   [Download (zoom (self_trans self))
                      ((first_tile_x (self_trans self) + xx) mod number_of_tiles (self_trans self))
                      (first_tile_y (self_trans self) + yy)]\<rparr>)
         else (Some e,
               s2\<lparr>calls := calls s2 @
                  [Download (zoom (self_trans self))
                     ((first_tile_x (self_trans self) + xx) mod number_of_tiles (self_trans self))
                     (first_tile_y (self_trans self) + yy)]\<rparr>)))"
proof (intro conjI impI; (elim conjE)?)
  let ?x = "(first_tile_x (self_trans self) + xx) mod number_of_tiles (self_trans self)"
  let ?s' = "self\<lparr>calls := calls self @ [Download (zoom (self_trans self)) ?x y]\<rparr>"
  {
    assume n: "number_of_tiles (self_trans self) \<noteq> 0"
      and d: "download (zoom (self_trans self)) ?x y = Inr (Some image_data)"
      and c: "create_image lib image_data = Inl e"
    show t: "tile_cell lib download yy y xx self = (if is_RuntimeError e then None else Some e, ?s')"
      using tile_cell_outcome(3)[where s = self and x = ?x and xx = xx and download = download
          and y = y and e = e and lib = lib and yy = yy and image_data = image_data] n d c by simp
    assume "is_RuntimeError e"
    then show "for_each (xx # rest) (tile_cell lib download yy y) self =
         for_each rest (tile_cell lib download yy y) ?s'"
      using t by (simp add: for_each_Cons)
  }
  let ?y = "first_tile_y (self_trans self) + yy"
  assume g: "0 \<le> yy" "yy < tiles_y (self_trans self)" "0 \<le> xx" "xx < tiles_x (self_trans self)"
    "0 \<le> ?y" "?y < number_of_tiles (self_trans self)"
    and r1: "for_each (py_range 0 yy) (tile_row lib download) self = (None, s1)"
    and r2: "for_each (py_range 0 xx) (tile_cell lib download yy ?y) s1 = (None, s2)"
    and d: "download (zoom (self_trans self)) ?x ?y = Inr (Some image_data)"
    and c: "create_image lib image_data = Inl e"
  note at = render_tiles_at_cell(1)[OF g r1 r2]
    render_tiles_at_cell(2)[OF g r1 r2, where objects = objects and tighten = tighten]
  have n2: "number_of_tiles (self_trans s2) \<noteq> 0" using at(1) g by simp
  have c2: "tile_cell lib download yy ?y xx s2 =
      (if is_RuntimeError e then None else Some e,
       s2\<lparr>calls := calls s2 @ [Download (zoom (self_trans self)) ?x ?y]\<rparr>)"
    using tile_cell_outcome(3)[where s = s2 and x = ?x and xx = xx and download = download
        and y = ?y and e = e and lib = lib and yy = yy and image_data = image_data]
      n2 d c at(1) by simp
  show "render_tiles lib download objects tighten self =
      (if is_RuntimeError e
       then seq [for_each (py_range (xx + 1) (tiles_x (self_trans self)))
                   (tile_cell lib download yy ?y),
                 for_each (py_range (yy + 1) (tiles_y (self_trans self)))
                   (tile_row lib download)]
              (s2\<lparr>calls := calls s2 @ [Download (zoom (self_trans self)) ?x ?y]\<rparr>)
       else (Some e, s2\<lparr>calls := calls s2 @ [Download (zoom (self_trans self)) ?x ?y]\<rparr>))"
    unfolding at(2) c2 by (simp del: seq.simps)
qed

theorem decode_RuntimeError_absorbed_witness:
  "ex_download 1 0 0 = Inr (Some [137, 80, 78, 71]) \<and>
   create_image ex_lib_rt [137, 80, 78, 71] = Inl RuntimeError \<and>
   tile_cell ex_lib_rt ex_download 1 0 1 (ex_renderer\<lparr>calls := [Download 1 1 0]\<rparr>) =
     (None, ex_renderer\<lparr>calls := [Download 1 1 0, Download 1 0 0]\<rparr>) \<and>
   for_each (py_range 0 1) (tile_cell ex_lib_rt ex_download 1 0) ex_renderer =
     (None, ex_renderer\<lparr>calls := [Download 1 1 0]\<rparr>) \<and>
   render_tiles ex_lib_rt ex_download [] False ex_renderer =
     seq [for_each (py_range 2 5) (tile_cell ex_lib_rt ex_download 1 0),
          for_each (py_range 2 4) (tile_row ex_lib_rt ex_download)]
       (ex_renderer\<lparr>calls := [Download 1 1 0, Download 1 0 0]\<rparr>)"
proof -
  have d: "ex_download 1 0 0 = Inr (Some [137, 80, 78, 71])"
    by (simp add: ex_download_def)
  have c: "create_image ex_lib_rt [137, 80, 78, 71] = Inl RuntimeError"
    by (simp add: create_image_def PIL_Image_open_def ex_lib_rt_def)
  have r1: "for_each (py_range 0 1) (tile_row ex_lib_rt ex_download) ex_renderer =
      (None, ex_renderer)"
    by (rule ex_first_row_skipped)
  have r2: "for_each (py_range 0 1) (tile_cell ex_lib_rt ex_download 1 0) ex_renderer =
      (None, ex_renderer\<lparr>calls := [Download 1 1 0]\<rparr>)"
    by (simp add: py_range_def for_each_def tile_cell_def py_mod_def except_RuntimeError_pass_def
        tile_try_def fetch_tile_def Let_def ex_download_def ex_grid)
  have g: "self_trans (ex_renderer\<lparr>calls := [Download 1 1 0]\<rparr>) = self_trans ex_renderer"
    "calls (ex_renderer\<lparr>calls := [Download 1 1 0]\<rparr>) = [Download 1 1 0]"
    by simp_all
  note inst1 = decode_RuntimeError_absorbed[where self = "ex_renderer\<lparr>calls := [Download 1 1 0]\<rparr>"
      and download = ex_download and lib = ex_lib_rt and xx = 1 and y = 0 and yy = 1
      and e = RuntimeError and rest = "[2]" and image_data = "[137, 80, 78, 71]",
      THEN conjunct1, unfolded g ex_grid]
  note inst2 = decode_RuntimeError_absorbed[where self = ex_renderer
      and download = ex_download and lib = ex_lib_rt and xx = 1 and yy = 1
      and e = RuntimeError and image_data = "[137, 80, 78, 71]"
      and objects = "[]" and tighten = False and ?s1.0 = ex_renderer
      and ?s2.0 = "ex_renderer\<lparr>calls := [Download 1 1 0]\<rparr>",
      THEN conjunct2, unfolded ex_grid]
  have c1: "tile_cell ex_lib_rt ex_download 1 0 1 (ex_renderer\<lparr>calls := [Download 1 1 0]\<rparr>) =
     (None, ex_renderer\<lparr>calls := [Download 1 1 0, Download 1 0 0]\<rparr>)"
    using inst1 d c by simp
  have c2: "render_tiles ex_lib_rt ex_download [] False ex_renderer =
     seq [for_each (py_range 2 5) (tile_cell ex_lib_rt ex_download 1 0),
          for_each (py_range 2 4) (tile_row ex_lib_rt ex_download)]
       (ex_renderer\<lparr>calls := [Download 1 1 0, Download 1 0 0]\<rparr>)"
    using inst2 r1 r2 d c by (simp del: seq.simps)
  show ?thesis using d c c1 r2 c2 by (intro conjI)
qed

theorem decode_error_propagates_counterexample:
  "ex_download_empty 1 1 0 = Inr (Some []) \<and>
   create_image ex_lib [] = Inl OSError \<and>
   fst (render_tiles ex_lib ex_download_empty [] False ex_renderer) = Some OSError \<and>
   calls (snd (render_tiles ex_lib ex_download_empty [] False ex_renderer)) = [Download 1 1 0]"
  by code_simp

text \<open>
  C7. \<^verbatim>\<open>fetch_tile\<close> returns \<^verbatim>\<open>None\<close> exactly when the callback returned \<^verbatim>\<open>None\<close>.
  For a cell where it does, the body of the loop returns normally and nothing is drawn (the
  one call on record is the fetch itself). For \<^verbatim>\<open>render_tiles\<close> as a whole: when it has
  come to the cell \<open>(xx, yy)\<close> of the grid (the rows before and the cells before in the row
  have returned normally) and the callback returns \<^verbatim>\<open>None\<close> there, it goes on with the
  remaining cells of the row and then the remaining rows, from a state that differs only by
  the record of the fetch.
\<close>

theorem absent_tile_skipped:
  "(fst (fetch_tile lib download x y self) = Inr None \<longleftrightarrow>
      download (zoom (self_trans self)) x y = Inr None) \<and>
   (number_of_tiles (self_trans self) \<noteq> 0 \<and>
    download (zoom (self_trans self))
      ((first_tile_x (self_trans self) + xx) mod number_of_tiles (self_trans self)) y = Inr None \<longrightarrow>
      tile_cell lib download yy y xx self =
        (None,
         self\<lparr>calls := calls self @
           [Download (zoom (self_trans self))
              ((first_tile_x (self_trans self) + xx) mod number_of_tiles (self_trans self)) y]\<rparr>) \<and>
      for_each (xx # rest) (tile_cell lib download yy y) self =
      for_each rest (tile_cell lib download yy y)
        (self\<lparr>calls := calls self @
          [Download (zoom (self_trans self))
             ((first_tile_x (self_trans self) + xx) mod number_of_tiles (self_trans self)) y]\<rparr>)) \<and>
   (0 \<le> yy \<and> yy < tiles_y (self_trans self) \<and> 0 \<le> xx \<and> xx < tiles_x (self_trans self) \<and>
    0 \<le> first_tile_y (self_trans self) + yy \<and>
    first_tile_y (self_trans self) + yy < number_of_tiles (self_trans self) \<and>
    for_each (py_range 0 yy) (tile_row lib download) self = (None, s1) \<and>
    for_each (py_range 0 xx)
      (tile_cell lib download yy (first_tile_y (self_trans self) + yy)) s1 = (None, s2) \<and>
    download (zoom (self_trans self))
      ((first_tile_x (self_trans self) + xx) mod number_of_tiles (self_trans self))
      (first_tile_y (self_trans self) + yy) = Inr None \<longrightarrow>
      render_tiles lib download objects tighten self =
        seq [for_each (py_range (xx + 1) (tiles_x (self_trans self)))
               (tile_cell lib download yy (first_tile_y (self_trans self) + yy)),
             for_each (py_range (yy + 1) (tiles_y (self_trans self)))
               (tile_row lib download)]
          (s2\<lparr>calls := calls s2 @
             [Download (zoom (self_trans self))
                ((first_tile_x (self_trans self) + xx) mod number_of_tiles (self_trans self))
                (first_tile_y (self_trans self) + yy)]\<rparr>))"
proof (intro conjI impI; (elim conjE)?)
  show "fst (fetch_tile lib download x y self) = Inr None \<longleftrightarrow>
      download (zoom (self_trans self)) x y = Inr None"
    by (simp add: fetch_tile_result split: sum.splits option.splits)
next
  let ?x = "(first_tile_x (self_trans self) + xx) mod number_of_tiles (self_trans self)"
  let ?s' = "self\<lparr>calls := calls self @ [Download (zoom (self_trans self)) ?x y]\<rparr>"
  {
    assume n: "number_of_tiles (self_trans self) \<noteq> 0"
      and d: "download (zoom (self_trans self)) ?x y = Inr None"
    show t: "tile_cell lib download yy y xx self = (None, ?s')"
      using tile_cell_outcome(2)[where s = self and x = ?x and xx = xx and download = download
          and y = y and lib = lib and yy = yy] n d by simp
    show "for_each (xx # rest) (tile_cell lib download yy y) self =
         for_each rest (tile_cell lib download yy y) ?s'"
      using t by (simp add: for_each_Cons)
  }
  let ?y = "first_tile_y (self_trans self) + yy"
  assume g: "0 \<le> yy" "yy < tiles_y (self_trans self)" "0 \<le> xx" "xx < tiles_x (self_trans self)"
    "0 \<le> ?y" "?y < number_of_tiles (self_trans self)"
    and r1: "for_each (py_range 0 yy) (tile_row lib download) self = (None, s1)"
    and r2: "for_each (py_range 0 xx) (tile_cell lib download yy ?y) s1 = (None, s2)"
    and d: "download (zoom (self_trans self)) ?x ?y = Inr None"
  note at = render_tiles_at_cell(1)[OF g r1 r2]
    render_tiles_at_cell(2)[OF g r1 r2, where objects = objects and tighten = tighten]
  have n2: "number_of_tiles (self_trans s2) \<noteq> 0" using at(1) g by simp
  have c2: "tile_cell lib download yy ?y xx s2 =
      (None, s2\<lparr>calls := calls s2 @ [Download (zoom (self_trans self)) ?x ?y]\<rparr>)"
    using tile_cell_outcome(2)[where s = s2 and x = ?x and xx = xx and download = download
        and y = ?y and lib = lib and yy = yy] n2 d at(1) by simp
  show "render_tiles lib download objects tighten self =
      seq [for_each (py_range (xx + 1) (tiles_x (self_trans self)))
             (tile_cell lib download yy ?y),
           for_each (py_range (yy + 1) (tiles_y (self_trans self)))
             (tile_row lib download)]
        (s2\<lparr>calls := calls s2 @ [Download (zoom (self_trans self)) ?x ?y]\<rparr>)"
    unfolding at(2) c2 by (simp del: seq.simps)
qed

theorem absent_tile_skipped_witness:
  "ex_download 1 1 0 = Inr None \<and>
   fst (fetch_tile ex_lib ex_download 1 0 ex_renderer) = Inr None \<and>
   tile_cell ex_lib ex_download 1 0 0 ex_renderer =
     (None, ex_renderer\<lparr>calls := [Download 1 1 0]\<rparr>) \<and>
   render_tiles ex_lib ex_download [] False ex_renderer =
     seq [for_each (py_range 1 5) (tile_cell ex_lib ex_download 1 0),
          for_each (py_range 2 4) (tile_row ex_lib ex_download)]
       (ex_renderer\<lparr>calls := [Download 1 1 0]\<rparr>) \<and>
   Download 1 1 1 \<in> set (calls (snd (render_tiles ex_lib ex_download [] False ex_renderer))) \<and>
   Ctx Paint \<in> set (calls (snd (render_tiles ex_lib ex_download [] False ex_renderer)))"
proof -
  have d: "ex_download 1 1 0 = Inr None"
    by (simp add: ex_download_def)
  have r1: "for_each (py_range 0 1) (tile_row ex_lib ex_download) ex_renderer =
      (None, ex_renderer)"
    by (rule ex_first_row_skipped)
  have r2: "for_each (py_range 0 0) (tile_cell ex_lib ex_download 1 0) ex_renderer =
      (None, ex_renderer)"
    by (rule ex_no_cells_before)
  note inst = absent_tile_skipped[where self = ex_renderer and download = ex_download
      and lib = ex_lib and xx = 0 and x = 1 and y = 0 and yy = 1 and rest = "[1]"
      and objects = "[]" and tighten = False and ?s1.0 = ex_renderer and ?s2.0 = ex_renderer,
      unfolded ex_grid]
  have c0: "fst (fetch_tile ex_lib ex_download 1 0 ex_renderer) = Inr None"
    using inst[THEN conjunct1] d by simp
  have c1: "tile_cell ex_lib ex_download 1 0 0 ex_renderer =
     (None, ex_renderer\<lparr>calls := [Download 1 1 0]\<rparr>)"
    using inst[THEN conjunct2, THEN conjunct1] d by simp
  have c2: "render_tiles ex_lib ex_download [] False ex_renderer =
     seq [for_each (py_range 1 5) (tile_cell ex_lib ex_download 1 0),
          for_each (py_range 2 4) (tile_row ex_lib ex_download)]
       (ex_renderer\<lparr>calls := [Download 1 1 0]\<rparr>)"
    using inst[THEN conjunct2, THEN conjunct2] r1 r2 d by (simp del: seq.simps)
  have m: "Download 1 1 1 \<in> set (calls (snd (render_tiles ex_lib ex_download [] False ex_renderer)))"
    "Ctx Paint \<in> set (calls (snd (render_tiles ex_lib ex_download [] False ex_renderer)))"
    by code_simp+
  show ?thesis using d c0 c1 c2 m by (intro conjI)
qed

subsection \<open>The drawing context after \<^verbatim>\<open>render_tiles\<close> and \<^verbatim>\<open>render_objects\<close>\<close>

lemma render_object_at_context:
  assumes bal: "\<And>c. stack (snd (rc obj (self_trans s) c)) = stack c"
    and ret: "fst (render_object_at rc obj p s) = None"
  shows "self_context (snd (render_object_at rc obj p s)) = self_context s \<and>
         self_trans (snd (render_object_at rc obj p s)) = self_trans s"
proof -
  let ?tr = "Translate (of_int (p * world_width (self_trans s))) 0"
  define s1 where "s1 = snd (call Save s)"
  define s2 where "s2 = snd (call ?tr s1)"
  obtain r s3 where e3: "obj_render_cairo rc obj s2 = (r, s3)"
    by (cases "obj_render_cairo rc obj s2")
  have e1: "call Save s = (None, s1)" by (simp add: s1_def call_def)
  have e2: "call ?tr s1 = (None, s2)" by (simp add: s2_def call_def)
  have st2: "stack (self_context s2) = gstate (self_context s) # stack (self_context s)"
    by (simp add: s2_def s1_def call_def)
  have t2: "self_trans s2 = self_trans s" by (simp add: s2_def s1_def call_props)
  have st3: "stack (self_context s3) = gstate (self_context s) # stack (self_context s)"
    using bal[of "self_context s2"] t2 st2 e3
    by (auto simp: obj_render_cairo_def split: prod.splits)
  have t3: "self_trans s3 = self_trans s"
    using t2 e3 by (auto simp: obj_render_cairo_def split: prod.splits)
  have r: "r = None"
    using ret e1 e2 e3 by (cases r) (simp_all add: render_object_at_def)
  have e: "render_object_at rc obj p s = call Restore s3"
    using e1 e2 e3 r
    by (cases "call Restore s3") (auto simp: render_object_at_def split: option.splits)
  have "self_context (snd (call Restore s3)) = self_context s"
    using st3 by (simp add: call_def)
  then show ?thesis using e t3 by (simp add: call_props)
qed

text \<open>
  C10. When \<^verbatim>\<open>render_tiles\<close> returns, the drawing context (the transformation matrix
  with the rest of the graphics state, and the stack of saved states) is what it was
  before the call. The same holds for \<^verbatim>\<open>render_objects\<close> when the objects'
  \<^verbatim>\<open>render_cairo\<close> leave the stack of saved states as they found it.
\<close>

theorem render_leaves_context_unchanged:
  "(fst (render_tiles lib download objects tighten self) = None \<longrightarrow>
      self_context (snd (render_tiles lib download objects tighten self)) = self_context self \<and>
      ctm (gstate (self_context (snd (render_tiles lib download objects tighten self)))) =
        ctm (gstate (self_context self))) \<and>
   ((\<forall>obj\<in>set objects. \<forall>c. stack (snd (rc obj (self_trans self) c)) = stack c) \<and>
    fst (render_objects rc objects tighten self) = None \<longrightarrow>
      self_context (snd (render_objects rc objects tighten self)) = self_context self \<and>
      ctm (gstate (self_context (snd (render_objects rc objects tighten self)))) =
        ctm (gstate (self_context self)))"
proof (intro conjI impI; (elim conjE)?)
  from render_tiles_state[of lib download objects tighten self]
  obtain evs where s: "snd (render_tiles lib download objects tighten self) =
                 self\<lparr>calls := calls self @ evs\<rparr>" by blast
  show c1: "self_context (snd (render_tiles lib download objects tighten self)) = self_context self"
    by (simp add: s)
  show "ctm (gstate (self_context (snd (render_tiles lib download objects tighten self)))) =
        ctm (gstate (self_context self))"
    by (simp add: c1)
next
  assume bal: "\<forall>obj\<in>set objects. \<forall>c. stack (snd (rc obj (self_trans self) c)) = stack c"
    and ret: "fst (render_objects rc objects tighten self) = None"
  let ?I = "\<lambda>s::'a renderer. self_context s = self_context self \<and> self_trans s = self_trans self"
  obtain xc where xc: "x_count (self_trans self) = Inr xc"
    using ret by (cases "x_count (self_trans self)") (simp_all add: render_objects_def)
  have ro: "render_objects rc objects tighten self =
      for_each objects (\<lambda>obj. for_each (py_range (- xc) (xc + 1)) (render_object_at rc obj)) self"
    by (simp add: render_objects_def xc)
  have inner: "?I (snd (for_each (py_range (- xc) (xc + 1)) (render_object_at rc obj) s))"
    if "obj \<in> set objects" and "?I s"
      and "fst (for_each (py_range (- xc) (xc + 1)) (render_object_at rc obj) s) = None" for obj s
  proof (rule for_each_invariant_normal[where I = ?I])
    show "?I s" by fact
    show "fst (for_each (py_range (- xc) (xc + 1)) (render_object_at rc obj) s) = None" by fact
  next
    fix p s'
    assume I': "?I s'" and r: "fst (render_object_at rc obj p s') = None"
    have b: "\<And>c. stack (snd (rc obj (self_trans s') c)) = stack c"
      using bal that(1) I' by auto
    from render_object_at_context[of rc obj s' p, OF b r] I'
    show "?I (snd (render_object_at rc obj p s'))" by simp
  qed
  have "?I (snd (for_each objects
      (\<lambda>obj. for_each (py_range (- xc) (xc + 1)) (render_object_at rc obj)) self))"
  proof (rule for_each_invariant_normal[where I = ?I])
    show "?I self" by simp
    show "fst (for_each objects
      (\<lambda>obj. for_each (py_range (- xc) (xc + 1)) (render_object_at rc obj)) self) = None"
      using ret ro by simp
  next
    fix obj s
    assume "obj \<in> set objects" and "?I s"
      and "fst (for_each (py_range (- xc) (xc + 1)) (render_object_at rc obj) s) = None"
    then show "?I (snd (for_each (py_range (- xc) (xc + 1)) (render_object_at rc obj) s))"
      by (rule inner)
  qed
  then show c2: "self_context (snd (render_objects rc objects tighten self)) = self_context self"
    using ro by simp
  show "ctm (gstate (self_context (snd (render_objects rc objects tighten self)))) =
        ctm (gstate (self_context self))"
    by (simp add: c2)
qed

text \<open>The example objects, rendered on the example viewport.\<close>

lemma ex_x_count: "x_count (self_trans ex_renderer) = Inr 1"
proof -
  have "x_count ex_trans = Inr \<lceil>(of_int (image_width ex_trans) :: rat) / of_int (2 * world_width ex_trans)\<rceil>"
    by (rule x_count_nonneg) (simp_all add: ex_trans_def)
  also have "\<lceil>(of_int (image_width ex_trans) :: rat) / of_int (2 * world_width ex_trans)\<rceil> = 1"
    by (simp add: ex_trans_def ceiling_eq_iff)
  finally show ?thesis by (simp add: ex_renderer_def)
qed

lemma ex_objects_run:
  "fst (render_objects ex_rc [7] False ex_renderer) = None"
  "Ctx (Translate 512 0) \<in> set (calls (snd (render_objects ex_rc [7] False ex_renderer)))"
  unfolding render_objects_def ex_x_count
  by (simp_all add: for_each_def py_range_def upto.simps render_object_at_def call_def
      obj_render_cairo_def ex_rc_def ex_renderer_def ex_trans_def Context_new_def)

theorem render_leaves_context_unchanged_witness:
  "fst (render_tiles ex_lib ex_download [7] False ex_renderer) = None \<and>
   fst (render_objects ex_rc [7] False ex_renderer) = None \<and>
   self_context (snd (render_tiles ex_lib ex_download [7] False ex_renderer)) =
     Context_new ex_surface \<and>
   self_context (snd (render_objects ex_rc [7] False ex_renderer)) = Context_new ex_surface \<and>
   ctm (gstate (self_context (snd (render_tiles ex_lib ex_download [7] False ex_renderer)))) =
     identity_matrix \<and>
   ctm (gstate (self_context (snd (render_objects ex_rc [7] False ex_renderer)))) =
     identity_matrix \<and>
   Ctx (Translate 512 0) \<in> set (calls (snd (render_objects ex_rc [7] False ex_renderer)))"
proof -
  have t: "fst (render_tiles ex_lib ex_download [7] False ex_renderer) = None"
    by code_simp
  have o: "fst (render_objects ex_rc [7] False ex_renderer) = None"
    by (rule ex_objects_run)
  have m: "Ctx (Translate 512 0) \<in> set (calls (snd (render_objects ex_rc [7] False ex_renderer)))"
    by (rule ex_objects_run)
  have b: "\<forall>obj\<in>set [7]. \<forall>c. stack (snd (ex_rc obj (self_trans ex_renderer) c)) = stack c"
    by (simp add: ex_rc_def)
  have c: "self_context ex_renderer = Context_new ex_surface"
    by (simp add: ex_renderer_def)
  have g: "ctm (gstate (Context_new ex_surface)) = identity_matrix"
    by (simp add: Context_new_def)
  from render_leaves_context_unchanged[where self = ex_renderer and lib = ex_lib
      and download = ex_download and objects = "[7]" and tighten = False and rc = ex_rc] t o b
  show ?thesis using m g unfolding c by simp
qed

subsection \<open>Image decoding\<close>

lemma bio_read_new: "bio_read (BytesIO_new b) = b"
  by (simp add: bio_read_def BytesIO_new_def)

lemma bio_read_written: "bio_read (bio_seek 0 (bio_flush (bio_write b (BytesIO_new [])))) = b"
  by (simp add: bio_read_def bio_seek_def bio_flush_def bio_write_def BytesIO_new_def)

lemma create_image_eq:
  "create_image lib image_data =
     (case pil_decode lib image_data of
        Inl e \<Rightarrow> Inl e
      | Inr im \<Rightarrow>
          if format im = Some ''PNG'' then png_decode lib image_data
          else (case pil_encode_png lib im of
                  Inl e \<Rightarrow> Inl e
                | Inr png \<Rightarrow> png_decode lib png))"
  by (simp add: create_image_def PIL_Image_open_def create_from_png_def image_save_PNG_def
      bio_read_new bio_read_written split: sum.splits)

text \<open>
  C8. A surface that \<^verbatim>\<open>create_image\<close> returns is what the PNG reader makes of a byte
  stream: of the given bytes themselves when the image reader recognises them as PNG, and
  otherwise of the bytes the PNG encoder wrote for the decoded image, read from the start
  of the buffer. Conversely, when the image reader accepts the bytes, \<^verbatim>\<open>create_image\<close>
  returns what the PNG reader returns on that stream (or the encoder's exception).
\<close>

theorem create_image_from_png_stream:
  "(create_image lib image_data = Inr s \<longrightarrow>
      (\<exists>im png. pil_decode lib image_data = Inr im \<and> png_decode lib png = Inr s \<and>
         (if format im = Some ''PNG'' then png = image_data
          else pil_encode_png lib im = Inr png))) \<and>
   (pil_decode lib image_data = Inr im \<and> format im = Some ''PNG'' \<longrightarrow>
      create_image lib image_data = png_decode lib image_data) \<and>
   (pil_decode lib image_data = Inr im \<and> format im \<noteq> Some ''PNG'' \<and>
    pil_encode_png lib im = Inr png \<longrightarrow>
      create_image lib image_data = png_decode lib png \<and>
      bio_read (bio_seek 0 (bio_flush (bio_write png (BytesIO_new [])))) = png)"
proof (intro conjI impI; (elim conjE)?)
  assume c: "create_image lib image_data = Inr s"
  then obtain im' where d: "pil_decode lib image_data = Inr im'"
    by (cases "pil_decode lib image_data") (simp_all add: create_image_eq)
  show "\<exists>im png. pil_decode lib image_data = Inr im \<and> png_decode lib png = Inr s \<and>
         (if format im = Some ''PNG'' then png = image_data
          else pil_encode_png lib im = Inr png)"
  proof (cases "format im' = Some ''PNG''")
    case True
    then show ?thesis using c d
      by (intro exI[of _ im'] exI[of _ image_data]) (simp add: create_image_eq)
  next
    case False
    then obtain png' where p: "pil_encode_png lib im' = Inr png'"
      using c d by (cases "pil_encode_png lib im'") (simp_all add: create_image_eq)
    show ?thesis using c d p False
      by (intro exI[of _ im'] exI[of _ png']) (simp add: create_image_eq)
  qed
next
  assume "pil_decode lib image_data = Inr im" "format im = Some ''PNG''"
  then show "create_image lib image_data = png_decode lib image_data"
    by (simp add: create_image_eq)
next
  assume "pil_decode lib image_data = Inr im" "format im \<noteq> Some ''PNG''"
    "pil_encode_png lib im = Inr png"
  then show "create_image lib image_data = png_decode lib png"
    by (simp add: create_image_eq)
next
  show "bio_read (bio_seek 0 (bio_flush (bio_write png (BytesIO_new [])))) = png"
    by (rule bio_read_written)
qed

theorem create_image_from_png_stream_witness:
  "create_image ex_lib [255, 216] =
     Inr \<lparr>surf_width = 256, surf_height = 256, surf_data = [137, 255, 216]\<rparr> \<and>
   pil_decode ex_lib [255, 216] = Inr \<lparr>format = Some ''JPEG'', pixels = [255, 216]\<rparr> \<and>
   pil_encode_png ex_lib \<lparr>format = Some ''JPEG'', pixels = [255, 216]\<rparr> = Inr [137, 255, 216] \<and>
   png_decode ex_lib [137, 255, 216] =
     Inr \<lparr>surf_width = 256, surf_height = 256, surf_data = [137, 255, 216]\<rparr>"
proof -
  have d2: "pil_decode ex_lib [255, 216] = Inr \<lparr>format = Some ''JPEG'', pixels = [255, 216]\<rparr>"
    by (simp add: ex_lib_def)
  have f2: "format \<lparr>format = Some ''JPEG'', pixels = [255, 216] :: bytes\<rparr> \<noteq> Some ''PNG''"
    by simp
  have e2: "pil_encode_png ex_lib \<lparr>format = Some ''JPEG'', pixels = [255, 216]\<rparr> =
      Inr [137, 255, 216]"
    by (simp add: ex_lib_def)
  have p2: "png_decode ex_lib [137, 255, 216] =
     Inr \<lparr>surf_width = 256, surf_height = 256, surf_data = [137, 255, 216]\<rparr>"
    by (simp add: ex_lib_def)
  have "create_image ex_lib [255, 216] = png_decode ex_lib [137, 255, 216]"
    using create_image_from_png_stream[where lib = ex_lib and image_data = "[255, 216]"
      and im = "\<lparr>format = Some ''JPEG'', pixels = [255, 216]\<rparr>" and png = "[137, 255, 216]"
      and s = "\<lparr>surf_width = 256, surf_height = 256, surf_data = [137, 255, 216]\<rparr>"]
      d2 f2 e2 by blast
  then show ?thesis using d2 e2 p2 by simp
qed

subsection \<open>Availability of cairo and the constructor\<close>

text \<open>
  C5, as the code has it. The constructor raises \<^verbatim>\<open>RuntimeError\<close> whenever
  \<^verbatim>\<open>cairo_is_supported()\<close> is false, and returns a renderer only if it is true. When it
  is true the constructor goes on to use the module's name \<^verbatim>\<open>cairo\<close> and to allocate
  the surface, and returns or raises as those do. \<^verbatim>\<open>cairo_is_supported\<close> is a function
  of the interpreter state to a truth value (it changes nothing): after the module's
  import it is true exactly when the import succeeded or a module of the name was loaded
  already. Where a failed import leaves no module of that name loaded and the surface
  allocation of an imported cairo succeeds for the transformer's image size, the
  constructor raises exactly when \<^verbatim>\<open>cairo_is_supported()\<close> is false.
\<close>

theorem CairoRenderer_init_raises_when_unsupported:
  "(\<not> cairo_is_supported env \<longrightarrow>
      (CairoRenderer_init env transformer :: py_exception + 'o renderer) = Inl RuntimeError) \<and>
   ((\<exists>r. (CairoRenderer_init env transformer :: py_exception + 'o renderer) = Inr r) \<longrightarrow>
      cairo_is_supported env) \<and>
   (cairo_is_supported env \<longrightarrow>
      (CairoRenderer_init env transformer :: py_exception + 'o renderer) =
        (case cairo env of
           None \<Rightarrow> Inl NameError
         | Some m \<Rightarrow>
             (case ImageSurface m (image_width transformer) (image_height transformer) of
                Inl e \<Rightarrow> Inl e
              | Inr s \<Rightarrow>
                  Inr \<lparr>self_trans = transformer, self_surface = s,
                       self_context = Context_new s, calls = []\<rparr>))) \<and>
   (cairo_is_supported (import_cairo pkg mods) \<longleftrightarrow> pkg \<noteq> None \<or> ''cairo'' \<in> mods) \<and>
   ((pkg = None \<longrightarrow> ''cairo'' \<notin> mods) \<and>
    (\<forall>m. pkg = Some m \<longrightarrow>
       (\<exists>s. ImageSurface m (image_width transformer) (image_height transformer) = Inr s)) \<longrightarrow>
      ((\<exists>e. (CairoRenderer_init (import_cairo pkg mods) transformer
                :: py_exception + 'o renderer) = Inl e)
         \<longleftrightarrow> \<not> cairo_is_supported (import_cairo pkg mods)) \<and>
      (cairo_is_supported (import_cairo pkg mods) \<longleftrightarrow>
         (\<exists>r. (CairoRenderer_init (import_cairo pkg mods) transformer
                 :: py_exception + 'o renderer) = Inr r)))"
proof (intro conjI impI)
  show "\<not> cairo_is_supported env \<Longrightarrow>
      (CairoRenderer_init env transformer :: py_exception + 'o renderer) = Inl RuntimeError"
    by (simp add: CairoRenderer_init_def)
  show "\<exists>r. (CairoRenderer_init env transformer :: py_exception + 'o renderer) = Inr r \<Longrightarrow>
      cairo_is_supported env"
    by (auto simp: CairoRenderer_init_def split: if_splits)
  show "cairo_is_supported env \<Longrightarrow>
      (CairoRenderer_init env transformer :: py_exception + 'o renderer) =
        (case cairo env of
           None \<Rightarrow> Inl NameError
         | Some m \<Rightarrow>
             (case ImageSurface m (image_width transformer) (image_height transformer) of
                Inl e \<Rightarrow> Inl e
              | Inr s \<Rightarrow>
                  Inr \<lparr>self_trans = transformer, self_surface = s,
                       self_context = Context_new s, calls = []\<rparr>))"
    by (simp add: CairoRenderer_init_def image_size_def split: option.splits)
  show "cairo_is_supported (import_cairo pkg mods) \<longleftrightarrow> pkg \<noteq> None \<or> ''cairo'' \<in> mods"
    by (cases pkg) (simp_all add: cairo_is_supported_def import_cairo_def)
next
  assume h: "(pkg = None \<longrightarrow> ''cairo'' \<notin> mods) \<and>
    (\<forall>m. pkg = Some m \<longrightarrow>
       (\<exists>s. ImageSurface m (image_width transformer) (image_height transformer) = Inr s))"
  have both: "((\<exists>e. (CairoRenderer_init (import_cairo pkg mods) transformer
                :: py_exception + 'o renderer) = Inl e)
         \<longleftrightarrow> \<not> cairo_is_supported (import_cairo pkg mods)) \<and>
      (cairo_is_supported (import_cairo pkg mods) \<longleftrightarrow>
         (\<exists>r. (CairoRenderer_init (import_cairo pkg mods) transformer
                 :: py_exception + 'o renderer) = Inr r))"
  proof (cases pkg)
    case None
    then show ?thesis using h
      by (simp add: CairoRenderer_init_def cairo_is_supported_def import_cairo_def)
  next
    case (Some m)
    then obtain s where "ImageSurface m (image_width transformer) (image_height transformer) = Inr s"
      using h by blast
    then show ?thesis using Some
      by (simp add: CairoRenderer_init_def cairo_is_supported_def import_cairo_def image_size_def)
  qed
  show "(\<exists>e. (CairoRenderer_init (import_cairo pkg mods) transformer
                :: py_exception + 'o renderer) = Inl e)
         \<longleftrightarrow> \<not> cairo_is_supported (import_cairo pkg mods)"
    using both by (rule conjunct1)
  show "cairo_is_supported (import_cairo pkg mods) \<longleftrightarrow>
         (\<exists>r. (CairoRenderer_init (import_cairo pkg mods) transformer
                 :: py_exception + 'o renderer) = Inr r)"
    using both by (rule conjunct2)
qed

theorem CairoRenderer_init_raises_when_unsupported_witness:
  "cairo_is_supported (import_cairo (Some ex_cairo) {''sys'', ''io''}) \<and>
   (CairoRenderer_init (import_cairo (Some ex_cairo) {''sys'', ''io''}) ex_trans
      :: py_exception + nat renderer) = Inr ex_renderer \<and>
   \<not> cairo_is_supported (import_cairo None {''sys'', ''io''}) \<and>
   (CairoRenderer_init (import_cairo None {''sys'', ''io''}) ex_trans
      :: py_exception + nat renderer) = Inl RuntimeError"
proof -
  have s1: "(Some ex_cairo = None \<longrightarrow> ''cairo'' \<notin> {''sys'', ''io''}) \<and>
    (\<forall>m. Some ex_cairo = Some m \<longrightarrow>
      (\<exists>s. ImageSurface m (image_width ex_trans) (image_height ex_trans) = Inr s))"
    by (simp add: ex_cairo_def ex_trans_def)
  have s2: "\<not> cairo_is_supported (import_cairo None {''sys'', ''io''})"
    by (simp add: cairo_is_supported_def import_cairo_def)
  have r: "(CairoRenderer_init (import_cairo (Some ex_cairo) {''sys'', ''io''}) ex_trans
      :: py_exception + nat renderer) = Inr ex_renderer"
    by (simp add: CairoRenderer_init_def cairo_is_supported_def import_cairo_def image_size_def
        ex_cairo_def ex_trans_def ex_renderer_def ex_surface_def Context_new_def)
  note inst1 = CairoRenderer_init_raises_when_unsupported[where 'o = nat
      and env = "import_cairo None {''sys'', ''io''}" and transformer = ex_trans
      and pkg = "Some ex_cairo" and mods = "{''sys'', ''io''}"]
  have c1: "(CairoRenderer_init (import_cairo None {''sys'', ''io''}) ex_trans
      :: py_exception + nat renderer) = Inl RuntimeError"
    using inst1[THEN conjunct1] s2 by simp
  have c2: "cairo_is_supported (import_cairo (Some ex_cairo) {''sys'', ''io''})"
    using inst1[THEN conjunct2, THEN conjunct2, THEN conjunct2, THEN conjunct2] s1 r by blast
  show ?thesis using c2 r s2 c1 by (intro conjI)
qed

theorem CairoRenderer_init_supported_raises_counterexample:
  "cairo_is_supported (import_cairo (Some ex_cairo) {''sys'', ''io''}) \<and>
   (CairoRenderer_init (import_cairo (Some ex_cairo) {''sys'', ''io''})
      (ex_trans\<lparr>image_width := - 1\<rparr>) :: py_exception + nat renderer) = Inl CairoError \<and>
   cairo_is_supported \<lparr>sys_modules = {''sys'', ''cairo''}, cairo = None\<rparr> \<and>
   (CairoRenderer_init \<lparr>sys_modules = {''sys'', ''cairo''}, cairo = None\<rparr> ex_trans
      :: py_exception + nat renderer) = Inl NameError"
  by (simp add: CairoRenderer_init_def cairo_is_supported_def import_cairo_def image_size_def
      ex_cairo_def ex_trans_def)

subsection \<open>The font size loop of \<^verbatim>\<open>render_attribution\<close>\<close>

lemma call_SetFontSize:
  "call (SetFontSize fs) s =
     (None, s\<lparr>self_context := (self_context s)\<lparr>gstate := (gstate (self_context s))\<lparr>font_size := fs\<rparr>\<rparr>,
              calls := calls s @ [Ctx (SetFontSize fs)]\<rparr>)"
  by (simp add: call_def)

lemma shrink_loop_step:
  "shrink_loop fb a w fs s =
     (if fb_text_width fb (font_face (gstate (self_context s))) fs a < of_int (w - 4)
      then Some (Inr (fst (snd (fb_font_extents fb (font_face (gstate (self_context s))) fs)),
                      fst (snd (snd (fb_font_extents fb (font_face (gstate (self_context s))) fs)))),
                 s\<lparr>self_context := (self_context s)\<lparr>gstate := (gstate (self_context s))\<lparr>font_size := fs\<rparr>\<rparr>,
                   calls := calls s @ [Ctx (SetFontSize fs)]\<rparr>)
      else shrink_loop fb a w (fs - 1 / 4)
             (s\<lparr>self_context := (self_context s)\<lparr>gstate := (gstate (self_context s))\<lparr>font_size := fs\<rparr>\<rparr>,
                calls := calls s @ [Ctx (SetFontSize fs)]\<rparr>))"
  by (subst shrink_loop.simps)
     (simp add: call_SetFontSize font_extents_def text_extents_width_def split: prod.splits)

lemma shrink_loop_never:
  assumes "shrink_loop fb a w fs s = Some y"
  shows "\<exists>f. fb_text_width fb (font_face (gstate (self_context s))) f a < of_int (w - 4)"
proof (rule shrink_loop.raw_induct[where P = "\<lambda>fb a w fs s y.
          \<exists>f. fb_text_width fb (font_face (gstate (self_context s))) f a < of_int (w - 4)",
        OF _ assms])
  fix loop :: "font_backend \<Rightarrow> string \<Rightarrow> int \<Rightarrow> rat \<Rightarrow> 'a renderer
     \<Rightarrow> ((py_exception + rat \<times> rat) \<times> 'a renderer) option"
  fix fb a w fs s y
  assume IH: "\<And>fb a w fs s y. loop fb a w fs s = Some y \<Longrightarrow>
      \<exists>f. fb_text_width fb (font_face (gstate (self_context s))) f a < of_int (w - 4)"
  assume body: "(case call (SetFontSize fs) s of
      (None, self1) \<Rightarrow>
        (case font_extents fb self1 of
           (x, f_descent, f_height, xa, xb) \<Rightarrow>
             if text_extents_width fb a self1 < of_int (w - 4)
             then Some (Inr (f_descent, f_height), self1)
             else loop fb a w (fs - 1 / 4) self1)
      | (Some e, self1) \<Rightarrow> Some (Inl e, self1)) = Some y"
  show "\<exists>f. fb_text_width fb (font_face (gstate (self_context s))) f a < of_int (w - 4)"
  proof (rule ccontr)
    assume "\<not> ?thesis"
    then have nf: "\<And>f. \<not> fb_text_width fb (font_face (gstate (self_context s))) f a < of_int (w - 4)"
      by blast
    let ?s1 = "s\<lparr>self_context := (self_context s)\<lparr>gstate := (gstate (self_context s))\<lparr>font_size := fs\<rparr>\<rparr>,
                calls := calls s @ [Ctx (SetFontSize fs)]\<rparr>"
    from body nf[of fs] have "loop fb a w (fs - 1 / 4) ?s1 = Some y"
      by (simp add: call_SetFontSize font_extents_def text_extents_width_def split: prod.splits)
    from IH[OF this] nf show False by simp
  qed
qed

lemma shrink_loop_fits:
  assumes fit: "fb_text_width fb (font_face (gstate (self_context s))) (f0 - of_nat k / 4) a < of_int (w - 4)"
    and nofit: "\<forall>j<k. \<not> fb_text_width fb (font_face (gstate (self_context s))) (f0 - of_nat j / 4) a
                         < of_int (w - 4)"
  shows "shrink_loop fb a w f0 s =
     Some (Inr (fst (snd (fb_font_extents fb (font_face (gstate (self_context s))) (f0 - of_nat k / 4))),
                fst (snd (snd (fb_font_extents fb (font_face (gstate (self_context s))) (f0 - of_nat k / 4))))),
           s\<lparr>self_context := (self_context s)\<lparr>gstate := (gstate (self_context s))\<lparr>font_size := f0 - of_nat k / 4\<rparr>\<rparr>,
             calls := calls s @ map (\<lambda>j. Ctx (SetFontSize (f0 - of_nat j / 4))) [0..<Suc k]\<rparr>)"
  using assms
proof (induction k arbitrary: f0 s)
  case 0
  then show ?case by (subst shrink_loop_step) simp
next
  case (Suc k)
  let ?face = "font_face (gstate (self_context s))"
  let ?s1 = "s\<lparr>self_context := (self_context s)\<lparr>gstate := (gstate (self_context s))\<lparr>font_size := f0\<rparr>\<rparr>,
                calls := calls s @ [Ctx (SetFontSize f0)]\<rparr>"
  have face1: "font_face (gstate (self_context ?s1)) = ?face" by simp
  have sub: "f0 - 1 / 4 - of_nat j / 4 = f0 - of_nat (Suc j) / 4" for j
    by (simp add: field_simps)
  have nf0: "\<not> fb_text_width fb ?face f0 a < of_int (w - 4)"
    using Suc.prems(2)[rule_format, of 0] by simp
  have fit': "fb_text_width fb (font_face (gstate (self_context ?s1))) (f0 - 1 / 4 - of_nat k / 4) a
      < of_int (w - 4)"
    using Suc.prems(1) unfolding face1 sub .
  have nofit': "\<forall>j<k. \<not> fb_text_width fb (font_face (gstate (self_context ?s1)))
      (f0 - 1 / 4 - of_nat j / 4) a < of_int (w - 4)"
    unfolding face1 sub using Suc.prems(2) by auto
  have step: "shrink_loop fb a w f0 s = shrink_loop fb a w (f0 - 1 / 4) ?s1"
    by (subst shrink_loop_step) (use nf0 in simp)
  have g0: "f0 - of_nat 0 / 4 = f0" by simp
  have m: "Ctx (SetFontSize f0) # map (\<lambda>j. Ctx (SetFontSize (f0 - of_nat (Suc j) / 4))) [0..<Suc k] =
        map (\<lambda>j. Ctx (SetFontSize (f0 - of_nat j / 4))) [0..<Suc (Suc k)]"
    using map_upt_Suc[of "\<lambda>j. Ctx (SetFontSize (f0 - of_nat j / 4))" "Suc k"]
    unfolding g0 by (rule sym)
  have ih: "shrink_loop fb a w (f0 - 1 / 4) ?s1 =
     Some (Inr (fst (snd (fb_font_extents fb ?face (f0 - of_nat (Suc k) / 4))),
                fst (snd (snd (fb_font_extents fb ?face (f0 - of_nat (Suc k) / 4))))),
           ?s1\<lparr>self_context := (self_context ?s1)\<lparr>gstate := (gstate (self_context ?s1))\<lparr>font_size := f0 - of_nat (Suc k) / 4\<rparr>\<rparr>,
             calls := calls ?s1 @ map (\<lambda>j. Ctx (SetFontSize (f0 - of_nat (Suc j) / 4))) [0..<Suc k]\<rparr>)"
    using Suc.IH[OF fit' nofit'] unfolding face1 sub .
  have st: "?s1\<lparr>self_context := (self_context ?s1)\<lparr>gstate := (gstate (self_context ?s1))\<lparr>font_size := f0 - of_nat (Suc k) / 4\<rparr>\<rparr>,
             calls := calls ?s1 @ map (\<lambda>j. Ctx (SetFontSize (f0 - of_nat (Suc j) / 4))) [0..<Suc k]\<rparr> =
        s\<lparr>self_context := (self_context s)\<lparr>gstate := (gstate (self_context s))\<lparr>font_size := f0 - of_nat (Suc k) / 4\<rparr>\<rparr>,
             calls := calls s @ map (\<lambda>j. Ctx (SetFontSize (f0 - of_nat j / 4))) [0..<Suc (Suc k)]\<rparr>"
    unfolding m[symmetric] by (simp del: of_nat_Suc upt_Suc)
  show ?case unfolding step ih st ..
qed

subsection \<open>The attribution banner\<close>

lemma banner_calls:
  "seq [call (SetSourceRGBA wr wg wb al), call (Rectangle x y w h), call Fill,
        call (SetSourceRGB br bg bb), call (MoveTo mx my), call (ShowText a), call Stroke] s =
     (None,
      s\<lparr>self_context := (self_context s)\<lparr>gstate := (gstate (self_context s))\<lparr>source_pattern := SolidSource br bg bb 1\<rparr>\<rparr>,
        calls := calls s @
          [Ctx (SetSourceRGBA wr wg wb al), Ctx (Rectangle x y w h), Ctx Fill,
           Ctx (SetSourceRGB br bg bb), Ctx (MoveTo mx my), Ctx (ShowText a), Ctx Stroke]\<rparr>)"
  by (simp add: call_def)

lemma render_attribution_run:
  assumes ne: "a \<noteq> []"
    and fit: "fb_text_width fb ''Sans'' (9 - of_nat k / 4) a < of_int (image_width (self_trans self) - 4)"
    and nofit: "\<forall>j<k. \<not> fb_text_width fb ''Sans'' (9 - of_nat j / 4) a
                         < of_int (image_width (self_trans self) - 4)"
  shows "render_attribution fb col (Some a) self =
     Some (None,
       self\<lparr>self_context := (self_context self)\<lparr>gstate := (gstate (self_context self))
               \<lparr>source_pattern := SolidSource (fst (BLACK_float_rgb col)) (fst (snd (BLACK_float_rgb col)))
                                     (snd (snd (BLACK_float_rgb col))) 1,
                font_face := ''Sans'', font_size := 9 - of_nat k / 4\<rparr>\<rparr>,
            calls := calls self @ Ctx (SelectFontFace ''Sans'') #
              map (\<lambda>j. Ctx (SetFontSize (9 - of_nat j / 4))) [0..<Suc k] @
              [Ctx (SetSourceRGBA (fst (WHITE_float_rgb col)) (fst (snd (WHITE_float_rgb col)))
                      (snd (snd (WHITE_float_rgb col))) (8 / 10)),
               Ctx (Rectangle 0
                      (of_int (image_height (self_trans self))
                        - fst (snd (snd (fb_font_extents fb ''Sans'' (9 - of_nat k / 4))))
                        - fst (snd (fb_font_extents fb ''Sans'' (9 - of_nat k / 4))) - 2)
                      (of_int (image_width (self_trans self)))
                      (of_int (image_height (self_trans self)))),
               Ctx Fill,
               Ctx (SetSourceRGB (fst (BLACK_float_rgb col)) (fst (snd (BLACK_float_rgb col)))
                      (snd (snd (BLACK_float_rgb col)))),
               Ctx (MoveTo 4 (of_int (image_height (self_trans self))
                        - fst (snd (fb_font_extents fb ''Sans'' (9 - of_nat k / 4))) - 2)),
               Ctx (ShowText a), Ctx Stroke]\<rparr>)"
proof -
  let ?s1 = "self\<lparr>self_context := (self_context self)\<lparr>gstate := (gstate (self_context self))\<lparr>font_face := ''Sans''\<rparr>\<rparr>,
                  calls := calls self @ [Ctx (SelectFontFace ''Sans'')]\<rparr>"
  have c1: "call (SelectFontFace ''Sans'') self = (None, ?s1)" by (simp add: call_def)
  have face: "font_face (gstate (self_context ?s1)) = ''Sans''" by simp
  have t1: "self_trans ?s1 = self_trans self" by simp
  have loop: "shrink_loop fb a (image_width (self_trans self)) 9 ?s1 =
     Some (Inr (fst (snd (fb_font_extents fb ''Sans'' (9 - of_nat k / 4))),
                fst (snd (snd (fb_font_extents fb ''Sans'' (9 - of_nat k / 4))))),
           ?s1\<lparr>self_context := (self_context ?s1)\<lparr>gstate := (gstate (self_context ?s1))\<lparr>font_size := 9 - of_nat k / 4\<rparr>\<rparr>,
             calls := calls ?s1 @ map (\<lambda>j. Ctx (SetFontSize (9 - of_nat j / 4))) [0..<Suc k]\<rparr>)"
    using shrink_loop_fits[where s = ?s1 and fb = fb and a = a and k = k and ?f0.0 = 9
        and w = "image_width (self_trans self)"] fit nofit
    unfolding face by blast
  show ?thesis
    unfolding render_attribution_def image_size_def
    using ne
    by (simp only: option.case if_False prod.case c1 loop sum.case banner_calls case_prod_beta
          fst_conv snd_conv)
       (simp del: upt_Suc of_nat_Suc)
qed

lemma render_attribution_diverges:
  assumes ne: "a \<noteq> []"
    and never: "\<forall>f. \<not> fb_text_width fb ''Sans'' f a < of_int (image_width (self_trans self) - 4)"
  shows "render_attribution fb col (Some a) self = None"
proof -
  let ?s1 = "self\<lparr>self_context := (self_context self)\<lparr>gstate := (gstate (self_context self))\<lparr>font_face := ''Sans''\<rparr>\<rparr>,
                  calls := calls self @ [Ctx (SelectFontFace ''Sans'')]\<rparr>"
  have c1: "call (SelectFontFace ''Sans'') self = (None, ?s1)" by (simp add: call_def)
  have loop: "shrink_loop fb a (image_width (self_trans self)) 9 ?s1 = None"
  proof (cases "shrink_loop fb a (image_width (self_trans self)) 9 ?s1")
    case None
    then show ?thesis .
  next
    case (Some y)
    from shrink_loop_never[OF Some] never show ?thesis by simp
  qed
  show ?thesis
    unfolding render_attribution_def image_size_def
    using ne by (simp only: option.case if_False prod.case c1 loop)
qed

text \<open>
  When one of the font sizes 9, 8.75, 8.5, \<dots> gives a measured width below \<open>width - 4\<close>,
  \<^verbatim>\<open>render_attribution\<close> returns normally. It has tried those sizes in turn, in steps of
  0.25, and stopped at the first that fits: the text as drawn measures less than
  \<open>width - 4\<close>. The calls after the loop fill a white rectangle of opacity 0.8 from
  \<open>height - f_height - f_descent - 2\<close> down, as wide as the viewport, and show the whole
  text once, in black, from \<open>(4, height - f_descent - 2)\<close>.
\<close>

lemma render_attribution_shrinks_to_fit:
  assumes ne: "a \<noteq> []"
    and ex: "\<exists>k. fb_text_width fb ''Sans'' (9 - of_nat k / 4) a
                  < of_int (image_width (self_trans self) - 4)"
  shows "\<exists>k r. render_attribution fb col (Some a) self = Some (None, r) \<and>
      (\<forall>j<k. \<not> fb_text_width fb ''Sans'' (9 - of_nat j / 4) a
                 < of_int (image_width (self_trans self) - 4)) \<and>
      font_face (gstate (self_context r)) = ''Sans'' \<and>
      font_size (gstate (self_context r)) = 9 - of_nat k / 4 \<and>
      text_extents_width fb a r < of_int (image_width (self_trans self) - 4) \<and>
      text_extents_width fb a r \<le> of_int (image_width (self_trans self) - 4) \<and>
      ctm (gstate (self_context r)) = ctm (gstate (self_context self)) \<and>
      calls r = calls self @ Ctx (SelectFontFace ''Sans'') #
              map (\<lambda>j. Ctx (SetFontSize (9 - of_nat j / 4))) [0..<Suc k] @
              [Ctx (SetSourceRGBA (fst (WHITE_float_rgb col)) (fst (snd (WHITE_float_rgb col)))
                      (snd (snd (WHITE_float_rgb col))) (8 / 10)),
               Ctx (Rectangle 0
                      (of_int (image_height (self_trans self))
                        - fst (snd (snd (fb_font_extents fb ''Sans'' (9 - of_nat k / 4))))
                        - fst (snd (fb_font_extents fb ''Sans'' (9 - of_nat k / 4))) - 2)
                      (of_int (image_width (self_trans self)))
                      (of_int (image_height (self_trans self)))),
               Ctx Fill,
               Ctx (SetSourceRGB (fst (BLACK_float_rgb col)) (fst (snd (BLACK_float_rgb col)))
                      (snd (snd (BLACK_float_rgb col)))),
               Ctx (MoveTo 4 (of_int (image_height (self_trans self))
                        - fst (snd (fb_font_extents fb ''Sans'' (9 - of_nat k / 4))) - 2)),
               Ctx (ShowText a), Ctx Stroke]"
proof -
  let ?fit = "\<lambda>k. fb_text_width fb ''Sans'' (9 - of_nat k / 4) a
                  < of_int (image_width (self_trans self) - 4)"
  define k where "k = (LEAST k. ?fit k)"
  have fit: "?fit k" unfolding k_def using ex by (rule LeastI_ex)
  have nofit: "\<forall>j<k. \<not> ?fit j" unfolding k_def using not_less_Least by blast
  let ?r = "self\<lparr>self_context := (self_context self)\<lparr>gstate := (gstate (self_context self))
               \<lparr>source_pattern := SolidSource (fst (BLACK_float_rgb col)) (fst (snd (BLACK_float_rgb col)))
                                     (snd (snd (BLACK_float_rgb col))) 1,
                font_face := ''Sans'', font_size := 9 - of_nat k / 4\<rparr>\<rparr>,
            calls := calls self @ Ctx (SelectFontFace ''Sans'') #
              map (\<lambda>j. Ctx (SetFontSize (9 - of_nat j / 4))) [0..<Suc k] @
              [Ctx (SetSourceRGBA (fst (WHITE_float_rgb col)) (fst (snd (WHITE_float_rgb col)))
                      (snd (snd (WHITE_float_rgb col))) (8 / 10)),
               Ctx (Rectangle 0
                      (of_int (image_height (self_trans self))
                        - fst (snd (snd (fb_font_extents fb ''Sans'' (9 - of_nat k / 4))))
                        - fst (snd (fb_font_extents fb ''Sans'' (9 - of_nat k / 4))) - 2)
                      (of_int (image_width (self_trans self)))
                      (of_int (image_height (self_trans self)))),
               Ctx Fill,
               Ctx (SetSourceRGB (fst (BLACK_float_rgb col)) (fst (snd (BLACK_float_rgb col)))
                      (snd (snd (BLACK_float_rgb col)))),
               Ctx (MoveTo 4 (of_int (image_height (self_trans self))
                        - fst (snd (fb_font_extents fb ''Sans'' (9 - of_nat k / 4))) - 2)),
               Ctx (ShowText a), Ctx Stroke]\<rparr>"
  have run: "render_attribution fb col (Some a) self = Some (None, ?r)"
    by (rule render_attribution_run[OF ne fit nofit])
  show ?thesis
  proof (intro exI[of _ k] exI[of _ ?r] conjI)
    show "render_attribution fb col (Some a) self = Some (None, ?r)" by (rule run)
    show "\<forall>j<k. \<not> ?fit j" by (rule nofit)
  qed (use fit in \<open>simp_all add: text_extents_width_def del: upt_Suc\<close>)
qed

lemma render_attribution_shrinks_example:
  "''OSM data'' \<noteq> [] \<and>
   \<not> fb_text_width ex_fb ''Sans'' 9 ''OSM data'' < of_int (image_width (self_trans ex_renderer_narrow) - 4) \<and>
   fb_text_width ex_fb ''Sans'' (9 - of_nat 1 / 4) ''OSM data''
     < of_int (image_width (self_trans ex_renderer_narrow) - 4) \<and>
   (\<exists>r. render_attribution ex_fb ex_col (Some ''OSM data'') ex_renderer_narrow = Some (None, r) \<and>
        text_extents_width ex_fb ''OSM data'' r \<le> 36)"
proof -
  have ne: "''OSM data'' \<noteq> []" by simp
  have w: "of_int (image_width (self_trans ex_renderer_narrow) - 4) = (36 :: rat)"
    by (simp add: ex_renderer_narrow_def ex_trans_def)
  have f0: "\<not> fb_text_width ex_fb ''Sans'' 9 ''OSM data''
      < of_int (image_width (self_trans ex_renderer_narrow) - 4)"
    unfolding w by (simp add: ex_fb_def)
  have f1: "fb_text_width ex_fb ''Sans'' (9 - of_nat 1 / 4) ''OSM data''
     < of_int (image_width (self_trans ex_renderer_narrow) - 4)"
    unfolding w by (simp add: ex_fb_def)
  have ex: "\<exists>k. fb_text_width ex_fb ''Sans'' (9 - of_nat k / 4) ''OSM data''
     < of_int (image_width (self_trans ex_renderer_narrow) - 4)"
    by (rule exI[of _ 1]) (rule f1)
  note inst = render_attribution_shrinks_to_fit[where a = "''OSM data''" and fb = ex_fb
      and self = ex_renderer_narrow and col = ex_col, OF ne ex]
  have "\<exists>r. render_attribution ex_fb ex_col (Some ''OSM data'') ex_renderer_narrow = Some (None, r) \<and>
        text_extents_width ex_fb ''OSM data'' r \<le> 36"
  proof -
    from inst obtain k r where
      run: "render_attribution ex_fb ex_col (Some ''OSM data'') ex_renderer_narrow = Some (None, r)"
      and le: "text_extents_width ex_fb ''OSM data'' r
                 \<le> of_int (image_width (self_trans ex_renderer_narrow) - 4)"
      by (elim exE conjE)
    from le have "text_extents_width ex_fb ''OSM data'' r \<le> 36" unfolding w .
    with run show ?thesis by (intro exI[of _ r] conjI)
  qed
  then show ?thesis using ne f0 f1 by (intro conjI)
qed

text \<open>
  C6, at a viewport 4 pixels wide. The attribution does not fit at the initial size 9. At
  the size 0, reached after 36 steps of 0.25, its measured width is 0, which is at most
  \<open>width - 4 = 0\<close>; but the loop leaves only on a width strictly below \<open>width - 4\<close> and
  goes past size 0 without end: \<^verbatim>\<open>render_attribution\<close> does not return, and nothing is
  drawn.
\<close>

theorem render_attribution_passes_fitting_size:
  "\<not> fb_text_width ex_fb ''Sans'' 9 ''Map data''
       < of_int (image_width (self_trans ex_renderer_tiny) - 4) \<and>
   fb_text_width ex_fb ''Sans'' (9 - of_nat 36 / 4) ''Map data''
     \<le> of_int (image_width (self_trans ex_renderer_tiny) - 4) \<and>
   render_attribution ex_fb ex_col (Some ''Map data'') ex_renderer_tiny = None"
proof (intro conjI)
  have w: "image_width (self_trans ex_renderer_tiny) = 4"
    by (simp add: ex_renderer_tiny_def ex_trans_def)
  show "\<not> fb_text_width ex_fb ''Sans'' 9 ''Map data''
       < of_int (image_width (self_trans ex_renderer_tiny) - 4)"
    unfolding w by (simp add: ex_fb_def)
  show "fb_text_width ex_fb ''Sans'' (9 - of_nat 36 / 4) ''Map data''
     \<le> of_int (image_width (self_trans ex_renderer_tiny) - 4)"
    unfolding w by (simp add: ex_fb_def)
  have nn: "\<forall>f. 0 \<le> fb_text_width ex_fb ''Sans'' f ''Map data''"
    by (simp add: ex_fb_def)
  have never: "\<forall>f. \<not> fb_text_width ex_fb ''Sans'' f ''Map data''
      < of_int (image_width (self_trans ex_renderer_tiny) - 4)"
    unfolding w using nn by (simp add: not_less)
  show "render_attribution ex_fb ex_col (Some ''Map data'') ex_renderer_tiny = None"
    by (rule render_attribution_diverges[OF _ never]) simp
qed

subsection \<open>A viewport too narrow for any font size\<close>

text \<open>
  C9, at a viewport 4 pixels wide. The loop leaves only when the measured width is below
  \<open>width - 4 = 0\<close>, and a measured width is never negative: the font size goes down by
  0.25 for ever and \<^verbatim>\<open>render_attribution\<close> does not return.
\<close>

theorem render_attribution_tiny_viewport_diverges:
  "image_width (self_trans ex_renderer_tiny) = 4 \<and>
   (\<forall>f. 0 \<le> fb_text_width ex_fb ''Sans'' f ''OSM data'') \<and>
   render_attribution ex_fb ex_col (Some ''OSM data'') ex_renderer_tiny = None"
proof (intro conjI)
  show w: "image_width (self_trans ex_renderer_tiny) = 4"
    by (simp add: ex_renderer_tiny_def ex_trans_def)
  show nn: "\<forall>f. 0 \<le> fb_text_width ex_fb ''Sans'' f ''OSM data''"
    by (simp add: ex_fb_def)
  have never: "\<forall>f. \<not> fb_text_width ex_fb ''Sans'' f ''OSM data''
      < of_int (image_width (self_trans ex_renderer_tiny) - 4)"
    unfolding w using nn by (simp add: not_less)
  show "render_attribution ex_fb ex_col (Some ''OSM data'') ex_renderer_tiny = None"
    by (rule render_attribution_diverges[OF _ never]) simp
qed

end
